theory Spec2Isabelle
  imports Complex_Main
begin

section \<open>Strings\<close>

text \<open>
  The validation script (\<^verbatim>\<open>src/validation.js\<close>) works on JavaScript strings. A string
  is modelled as a list of code units, and a \<^typ>\<open>char\<close> stands for a code unit below
  256 (the Latin-1 range), which is closed under \<^verbatim>\<open>toLowerCase\<close>. Strings with code
  units above 255 are outside the model.
\<close>

definition code :: "char \<Rightarrow> nat" where
  "code c = of_char c"

text \<open>
  \<^verbatim>\<open>String.prototype.toLowerCase\<close> on one code unit: A-Z (65-90) and the Latin-1 capitals
  (192-222 without the multiplication sign 215) move up by 32, the rest stays.
\<close>

definition toLowerChar :: "char \<Rightarrow> char" where
  "toLowerChar c =
     (if (65 \<le> code c \<and> code c \<le> 90) \<or> (192 \<le> code c \<and> code c \<le> 222 \<and> code c \<noteq> 215)
      then char_of (code c + 32) else c)"

definition toLowerCase :: "string \<Rightarrow> string" where
  "toLowerCase s = map toLowerChar s"

text \<open>
  White space as \<^verbatim>\<open>trim()\<close> and the regular expression class \<^verbatim>\<open>\s\<close> read it (tab, line
  feed, vertical tab, form feed, carriage return, space, no-break space), the line
  terminators that \<^verbatim>\<open>.\<close> excludes, the digits of \<^verbatim>\<open>\d\<close>, and the class \<^verbatim>\<open>[a-z0-9]\<close>.
\<close>

definition isWhiteSpace :: "char \<Rightarrow> bool" where
  "isWhiteSpace c = (code c \<in> {9, 10, 11, 12, 13, 32, 160})"

definition isLineTerminator :: "char \<Rightarrow> bool" where
  "isLineTerminator c = (code c \<in> {10, 13})"

definition isDigit :: "char \<Rightarrow> bool" where
  "isDigit c = (48 \<le> code c \<and> code c \<le> 57)"

definition isLowerAlnum :: "char \<Rightarrow> bool" where
  "isLowerAlnum c = ((97 \<le> code c \<and> code c \<le> 122) \<or> isDigit c)"

definition trim :: "string \<Rightarrow> string" where
  "trim s = rev (dropWhile isWhiteSpace (rev (dropWhile isWhiteSpace s)))"

text \<open>
  A value that is a string or \<^verbatim>\<open>null\<close> is a \<^typ>\<open>string option\<close>. \<^verbatim>\<open>x || ''\<close> is
  \<open>orEmpty\<close>, \<^verbatim>\<open>a || b\<close> is \<open>orElse\<close>: \<^verbatim>\<open>null\<close> and the empty string are falsy.
\<close>

definition truthyString :: "string option \<Rightarrow> bool" where
  "truthyString x = (case x of None \<Rightarrow> False | Some s \<Rightarrow> s \<noteq> [])"

definition orEmpty :: "string option \<Rightarrow> string" where
  "orEmpty x = (case x of None \<Rightarrow> [] | Some s \<Rightarrow> s)"

definition orElse :: "string option \<Rightarrow> string option \<Rightarrow> string option" where
  "orElse a b = (if truthyString a then a else b)"

text \<open>\<^verbatim>\<open>lastIndexOf\<close>, \<^verbatim>\<open>indexOf\<close> (-1 when absent) and \<^verbatim>\<open>slice(start)\<close>.\<close>

fun indexOfFrom :: "int \<Rightarrow> 'a list \<Rightarrow> 'a \<Rightarrow> int" where
  "indexOfFrom i [] x = -1"
| "indexOfFrom i (y # ys) x = (if y = x then i else indexOfFrom (i + 1) ys x)"

definition indexOf :: "'a list \<Rightarrow> 'a \<Rightarrow> int" where
  "indexOf xs x = indexOfFrom 0 xs x"

fun lastIndexOfFrom :: "int \<Rightarrow> int \<Rightarrow> 'a list \<Rightarrow> 'a \<Rightarrow> int" where
  "lastIndexOfFrom found i [] x = found"
| "lastIndexOfFrom found i (y # ys) x =
     lastIndexOfFrom (if y = x then i else found) (i + 1) ys x"

definition lastIndexOf :: "'a list \<Rightarrow> 'a \<Rightarrow> int" where
  "lastIndexOf xs x = lastIndexOfFrom (-1) 0 xs x"

definition slice :: "string \<Rightarrow> int \<Rightarrow> string" where
  "slice s start =
     (if start < 0 then drop (nat (max (int (length s) + start) 0)) s
      else drop (nat start) s)"

section \<open>Key normaliser\<close>

text \<open>
  \<^verbatim>\<open>normalizeKey(str)\<close>, lines 11-16:
  \<^verbatim>\<open>(str || '').toString().toLowerCase().replace(/[^a-z0-9]/g, '')\<close>.
\<close>

definition normalizeKey :: "string option \<Rightarrow> string" where
  "normalizeKey str = filter isLowerAlnum (toLowerCase (orEmpty str))"

section \<open>Regular expressions\<close>

text \<open>
  The fragment of JavaScript regular expressions the script's literals use: classes,
  sequence, alternative, star, the anchors \<^verbatim>\<open>^\<close> and \<^verbatim>\<open>$\<close> (no \<^verbatim>\<open>m\<close> flag) and
  positive lookahead. \<open>ends r s i\<close> lists the positions where a match of \<open>r\<close> that
  starts at position \<open>i\<close> of \<open>s\<close> can end. \<^verbatim>\<open>RegExp.prototype.test\<close> of an expression
  with no \<^verbatim>\<open>g\<close> or \<^verbatim>\<open>y\<close> flag searches: it tries every start position and asks
  whether some match exists.
\<close>

datatype regex =
    Empty
  | Class "char \<Rightarrow> bool"
  | Seq regex regex
  | Alt regex regex
  | Star regex
  | Bol
  | Eol
  | Lookahead regex

text \<open>
  The positions reachable by repeating \<open>step\<close>: a worklist, one round per list element
  of the fuel (the rest of the input), stopping early when a round finds nothing new.
\<close>

fun star_close :: "'a list \<Rightarrow> (nat \<Rightarrow> nat list) \<Rightarrow> nat list \<Rightarrow> nat list \<Rightarrow> nat list" where
  "star_close [] step seen todo = seen"
| "star_close (u # fuel) step seen todo =
     (let new = filter (\<lambda>j. j \<notin> set seen) (remdups (concat (map step todo)))
      in if new = [] then seen else star_close fuel step (seen @ new) new)"

primrec ends :: "regex \<Rightarrow> string \<Rightarrow> nat \<Rightarrow> nat list" where
  "ends Empty s = (\<lambda>i. [i])"
| "ends (Class P) s = (\<lambda>i. if i < length s \<and> P (s ! i) then [Suc i] else [])"
| "ends (Seq a b) s = (\<lambda>i. concat (map (ends b s) (ends a s i)))"
| "ends (Alt a b) s = (\<lambda>i. ends a s i @ ends b s i)"
| "ends (Star a) s = (\<lambda>i. star_close (drop i s) (ends a s) [i] [i])"
| "ends Bol s = (\<lambda>i. if i = 0 then [i] else [])"
| "ends Eol s = (\<lambda>i. if i = length s then [i] else [])"
| "ends (Lookahead a) s = (\<lambda>i. if ends a s i = [] then [] else [i])"

definition test :: "regex \<Rightarrow> string \<Rightarrow> bool" where
  "test r s = list_ex (\<lambda>i. ends r s i \<noteq> []) [0..<Suc (length s)]"

text \<open>
  What the matcher computes. \<open>matches r s i j\<close> says that \<open>r\<close> matches \<open>s\<close> from position
  \<open>i\<close> up to position \<open>j\<close>; a star is any number of matches in a row. It is the
  declarative reading of the syntax, proved below to agree with \<open>ends\<close>.
\<close>

primrec matches :: "regex \<Rightarrow> string \<Rightarrow> nat \<Rightarrow> nat \<Rightarrow> bool" where
  "matches Empty s = (\<lambda>i j. j = i)"
| "matches (Class P) s = (\<lambda>i j. i < length s \<and> P (s ! i) \<and> j = Suc i)"
| "matches (Seq a b) s = (\<lambda>i j. \<exists>k. matches a s i k \<and> matches b s k j)"
| "matches (Alt a b) s = (\<lambda>i j. matches a s i j \<or> matches b s i j)"
| "matches (Star a) s = (\<lambda>i j. (matches a s)\<^sup>*\<^sup>* i j)"
| "matches Bol s = (\<lambda>i j. i = 0 \<and> j = i)"
| "matches Eol s = (\<lambda>i j. i = length s \<and> j = i)"
| "matches (Lookahead a) s = (\<lambda>i j. j = i \<and> (\<exists>k. matches a s i k))"

definition Plus :: "regex \<Rightarrow> regex" where
  "Plus r = Seq r (Star r)"

definition Opt :: "regex \<Rightarrow> regex" where
  "Opt r = Alt r Empty"

definition Chr :: "char \<Rightarrow> regex" where
  "Chr c = Class (\<lambda>x. x = c)"

text \<open>A letter under the \<^verbatim>\<open>i\<close> flag, given in lower case.\<close>

definition ChrI :: "char \<Rightarrow> regex" where
  "ChrI c = Class (\<lambda>x. toLowerChar x = c)"

fun Lit :: "string \<Rightarrow> regex" where
  "Lit [] = Empty"
| "Lit (c # cs) = Seq (Chr c) (Lit cs)"

text \<open>\<^verbatim>\<open>/^(?=.*\d)[0-9+]+$/\<close>, line 130.\<close>

definition phonePattern :: regex where
  "phonePattern =
     Seq Bol
    (Seq (Lookahead (Seq (Star (Class (\<lambda>c. \<not> isLineTerminator c))) (Class isDigit)))
    (Seq (Plus (Class (\<lambda>c. isDigit c \<or> c = CHR ''+'')))
         Eol))"

text \<open>\<^verbatim>\<open>/^[^\s@]+@[^\s@]+\.[^\s@]+$/\<close>, line 138.\<close>

definition notSpaceAt :: "char \<Rightarrow> bool" where
  "notSpaceAt c = (\<not> (isWhiteSpace c \<or> c = CHR ''@''))"

definition emailPattern :: regex where
  "emailPattern =
     Seq Bol
    (Seq (Plus (Class notSpaceAt))
    (Seq (Chr CHR ''@'')
    (Seq (Plus (Class notSpaceAt))
    (Seq (Chr CHR ''.'')
    (Seq (Plus (Class notSpaceAt))
         Eol)))))"

text \<open>
  The shape \<^verbatim>\<open>local@domain.tld\<close> that the pattern stands for: a non-empty local part,
  \<^verbatim>\<open>@\<close>, a non-empty part, a dot and a non-empty part, with no white space and no other
  \<^verbatim>\<open>@\<close> anywhere.
\<close>

definition email_shape :: "string \<Rightarrow> bool" where
  "email_shape s =
     (\<exists>l d1 d2. s = l @ CHR ''@'' # d1 @ CHR ''.'' # d2
        \<and> l \<noteq> [] \<and> d1 \<noteq> [] \<and> d2 \<noteq> []
        \<and> list_all notSpaceAt (l @ d1 @ d2))"

text \<open>\<^verbatim>\<open>/^(https?:\/\/)?[^\s.]+\.[^\s]{2,}$/i\<close>, line 180.\<close>

definition urlPattern :: regex where
  "urlPattern =
     Seq Bol
    (Seq (Opt (Seq (ChrI CHR ''h'') (Seq (ChrI CHR ''t'') (Seq (ChrI CHR ''t'') (Seq (ChrI CHR ''p'')
              (Seq (Opt (ChrI CHR ''s'')) (Lit ''://'')))))))
    (Seq (Plus (Class (\<lambda>c. \<not> (isWhiteSpace c \<or> c = CHR ''.''))))
    (Seq (Chr CHR ''.'')
    (Seq (Class (\<lambda>c. \<not> isWhiteSpace c))
    (Seq (Plus (Class (\<lambda>c. \<not> isWhiteSpace c)))
         Eol)))))"

section \<open>Numbers and the engine\<close>

text \<open>
  A JavaScript number is \<^verbatim>\<open>NaN\<close>, an infinity or a finite double; a finite double is a
  real number, and \<^verbatim>\<open><\<close> compares the values, every comparison with \<^verbatim>\<open>NaN\<close> being
  false.
\<close>

datatype jsnum = NaN | NegInfinity | Finite real | PosInfinity

fun js_less :: "jsnum \<Rightarrow> jsnum \<Rightarrow> bool" where
  "js_less NaN y = False"
| "js_less x NaN = False"
| "js_less NegInfinity NegInfinity = False"
| "js_less NegInfinity y = True"
| "js_less (Finite a) (Finite b) = (a < b)"
| "js_less (Finite a) PosInfinity = True"
| "js_less (Finite a) NegInfinity = False"
| "js_less PosInfinity y = False"

definition isNaN :: "jsnum \<Rightarrow> bool" where
  "isNaN x = (x = NaN)"

datatype js_error = TypeError | SyntaxError

text \<open>
  Two operations belong to the JavaScript engine and are parameters of the model:
  \<^verbatim>\<open>Number(string)\<close>, which reads a numeric literal and rounds it to a double, and
  \<^verbatim>\<open>new RegExp(pattern)\<close>, which parses a pattern or throws a \<^verbatim>\<open>SyntaxError\<close>.
\<close>

record engine =
  Number :: "string \<Rightarrow> jsnum"
  RegExp :: "string \<Rightarrow> js_error + regex"

section \<open>Elements, fields and verdicts\<close>

text \<open>
  An element has attributes (\<^verbatim>\<open>getAttribute\<close> gives \<^verbatim>\<open>null\<close> for a missing one), a class
  list and a text content. \<^verbatim>\<open>el.dataset.defaultMessage\<close> is the attribute
  \<^verbatim>\<open>data-default-message\<close>. A field (an \<^verbatim>\<open>input\<close>, \<^verbatim>\<open>textarea\<close> or \<^verbatim>\<open>select\<close>) has a
  tag name, the properties \<^verbatim>\<open>type\<close>, \<^verbatim>\<open>value\<close> and \<^verbatim>\<open>checked\<close> as well.
\<close>

record element =
  attrs :: "string \<Rightarrow> string option"
  classList :: "string set"
  textContent :: string

record field = element +
  tagName :: string
  type_prop :: string
  val :: string
  checked :: bool

definition getAttribute :: "'a element_scheme \<Rightarrow> string \<Rightarrow> string option" where
  "getAttribute el name = attrs el name"

definition hasAttribute :: "'a element_scheme \<Rightarrow> string \<Rightarrow> bool" where
  "hasAttribute el name = (attrs el name \<noteq> None)"

text \<open>
  What the variable \<^verbatim>\<open>errorEl\<close> can hold: \<^verbatim>\<open>undefined\<close>, \<^verbatim>\<open>null\<close>, an error element
  (by its index among the form's error elements), or the function \<^verbatim>\<open>Object\<close>, which
  every plain object inherits as its property \<^verbatim>\<open>constructor\<close>.
\<close>

datatype js_ref = Undefined | Null | ElementRef nat | ObjectConstructor

fun truthy :: "js_ref \<Rightarrow> bool" where
  "truthy Undefined = False"
| "truthy Null = False"
| "truthy (ElementRef i) = True"
| "truthy ObjectConstructor = True"

record verdict =
  valid :: bool
  reason :: "string option"

definition ok :: verdict where
  "ok = \<lparr>valid = True, reason = None\<rparr>"

definition required_error :: verdict where
  "required_error = \<lparr>valid = False, reason = Some ''required''\<rparr>"

definition format_error :: verdict where
  "format_error = \<lparr>valid = False, reason = Some ''format''\<rparr>"

section \<open>Field validator\<close>

text \<open>
  \<^verbatim>\<open>validateField(field, errorEl)\<close>, lines 96-229. Each block of checks is a definition
  of its own that gives \<open>Some\<close> verdict where the source returns and \<open>None\<close> where it
  falls through to the next block. \<open>type_attr\<close> is the expression
  \<^verbatim>\<open>(field.getAttribute('type') || '').toLowerCase()\<close> of lines 97, 283 and 328.
\<close>

definition type_attr :: "field \<Rightarrow> string" where
  "type_attr field = toLowerCase (orEmpty (getAttribute field ''type''))"

definition isRequired :: "field \<Rightarrow> js_ref \<Rightarrow> bool" where
  "isRequired field errorEl = (hasAttribute field ''required'' \<or> truthy errorEl)"

definition tel_check :: "string \<Rightarrow> string \<Rightarrow> verdict option" where
  "tel_check type value =
     (if type = ''tel'' \<and> \<not> test phonePattern value then Some format_error else None)"

definition freeDomains :: "string list" where
  "freeDomains =
     [''gmail.com'', ''googlemail.com'', ''yahoo.com'', ''yahoo.co.uk'', ''hotmail.com'',
      ''outlook.com'', ''outlook.co.uk'', ''live.com'', ''msn.com'', ''icloud.com'',
      ''me.com'', ''mac.com'', ''aol.com'', ''protonmail.com'', ''pm.me'', ''yandex.com'',
      ''gmx.com'', ''mail.com'', ''zoho.com'']"

definition email_domain :: "string \<Rightarrow> string" where
  "email_domain value = toLowerCase (slice value (lastIndexOf value CHR ''@'' + 1))"

definition email_check :: "field \<Rightarrow> string \<Rightarrow> string \<Rightarrow> verdict option" where
  "email_check field type value =
     (if type = ''email'' then
        (if \<not> test emailPattern value then Some format_error
         else if hasAttribute field ''data-business-email-only'' then
           (if lastIndexOf value CHR ''@'' = -1 then Some format_error
            else if indexOf freeDomains (email_domain value) \<noteq> -1 then Some format_error
            else None)
         else None)
      else None)"

definition url_check :: "string \<Rightarrow> string \<Rightarrow> verdict option" where
  "url_check type value =
     (if type = ''url'' \<and> \<not> test urlPattern value then Some format_error else None)"

definition number_check :: "engine \<Rightarrow> field \<Rightarrow> string \<Rightarrow> string \<Rightarrow> bool \<Rightarrow> verdict option" where
  "number_check eng field type value req =
     (if type = ''number'' then
        (if value = [] then Some \<lparr>valid = \<not> req, reason = None\<rparr>
         else if isNaN (Number eng value) then Some format_error
         else if (case getAttribute field ''min'' of None \<Rightarrow> False
                  | Some minAttr \<Rightarrow> js_less (Number eng value) (Number eng minAttr))
           then Some format_error
         else if (case getAttribute field ''max'' of None \<Rightarrow> False
                  | Some maxAttr \<Rightarrow> js_less (Number eng maxAttr) (Number eng value))
           then Some format_error
         else None)
      else None)"

definition length_check :: "engine \<Rightarrow> field \<Rightarrow> string \<Rightarrow> verdict option" where
  "length_check eng field value =
     (if (case getAttribute field ''minlength'' of None \<Rightarrow> False
          | Some minLengthAttr \<Rightarrow> js_less (Finite (real (length value))) (Number eng minLengthAttr))
        then Some format_error
      else if (case getAttribute field ''maxlength'' of None \<Rightarrow> False
               | Some maxLengthAttr \<Rightarrow> js_less (Number eng maxLengthAttr) (Finite (real (length value))))
        then Some format_error
      else None)"

text \<open>
  Lines 216-226. The \<^verbatim>\<open>try\<close> block swallows the \<^verbatim>\<open>SyntaxError\<close> of a pattern that does
  not parse; a parsed pattern is applied with \<^verbatim>\<open>re.test(value)\<close>.
\<close>

definition pattern_check :: "engine \<Rightarrow> field \<Rightarrow> string \<Rightarrow> verdict option" where
  "pattern_check eng field value =
     (case getAttribute field ''pattern'' of
        None \<Rightarrow> None
      | Some patternAttr \<Rightarrow>
          if patternAttr = [] then None
          else (case RegExp eng patternAttr of
                  Inl e \<Rightarrow> None
                | Inr re \<Rightarrow> if \<not> test re value then Some format_error else None))"

fun first_return :: "verdict option list \<Rightarrow> verdict" where
  "first_return [] = ok"
| "first_return (None # checks) = first_return checks"
| "first_return (Some v # checks) = v"

definition validateField :: "engine \<Rightarrow> field \<Rightarrow> js_ref \<Rightarrow> verdict" where
  "validateField eng field errorEl =
     (let type = type_attr field;
          value = trim (val field);
          req = isRequired field errorEl
      in if type = ''checkbox'' \<or> type = ''radio'' then
           (if \<not> req then ok
            else \<lparr>valid = checked field,
                  reason = (if checked field then None else Some ''required'')\<rparr>)
         else if value = [] \<and> \<not> req then ok
         else if req \<and> value = [] then required_error
         else first_return
           [tel_check type value,
            email_check field type value,
            url_check type value,
            number_check eng field type value req,
            length_check eng field value,
            pattern_check eng field value])"

section \<open>Error map\<close>

text \<open>
  The error map is a plain object (\<^verbatim>\<open>var map = {}\<close>, line 33) whose own properties map
  a key to an error element, kept here by the element's index in the list of error
  elements. \<^verbatim>\<open>map[key]\<close> reads an own property or, failing that, one inherited from
  \<^verbatim>\<open>Object.prototype\<close>. A key is a normalised string (lower-case letters and digits
  only), and \<^verbatim>\<open>constructor\<close> is the one property name of \<^verbatim>\<open>Object.prototype\<close> of that
  form: there \<^verbatim>\<open>map[key]\<close> is the function \<^verbatim>\<open>Object\<close>.
\<close>

type_synonym error_map = "string \<Rightarrow> nat option"

definition get_property :: "error_map \<Rightarrow> string \<Rightarrow> js_ref" where
  "get_property m key =
     (case m key of
        Some i \<Rightarrow> ElementRef i
      | None \<Rightarrow> if key = ''constructor'' then ObjectConstructor else Undefined)"

text \<open>\<^verbatim>\<open>getFieldKey(field)\<close>, lines 21-27.\<close>

definition getFieldKey :: "field \<Rightarrow> string" where
  "getFieldKey field =
     normalizeKey (orElse (orElse (getAttribute field ''name'') (getAttribute field ''id''))
                          (getAttribute field ''data-name''))"

text \<open>
  \<^verbatim>\<open>buildErrorMap(form)\<close>, lines 32-49: the \<^verbatim>\<open>forEach\<close> over the elements that have the
  attribute \<^verbatim>\<open>data-error-text\<close>, in document order. The loop carries the index of the
  current element and the map; it gives back the map and the elements as it leaves
  them.
\<close>

fun buildErrorMap_loop :: "nat \<Rightarrow> element list \<Rightarrow> error_map \<Rightarrow> error_map \<times> element list" where
  "buildErrorMap_loop i [] m = (m, [])"
| "buildErrorMap_loop i (el # els) m =
     (let key = normalizeKey (getAttribute el ''data-error-text'')
      in if key = [] then
           (case buildErrorMap_loop (Suc i) els m of (m', els') \<Rightarrow> (m', el # els'))
         else
           (let m1 = (if \<not> truthy (get_property m key) then m(key \<mapsto> i) else m);
                el1 = el\<lparr>classList := classList el - {''is-visible''}\<rparr>
            in case buildErrorMap_loop (Suc i) els m1 of (m', els') \<Rightarrow> (m', el1 # els')))"

definition buildErrorMap :: "element list \<Rightarrow> error_map \<times> element list" where
  "buildErrorMap els = buildErrorMap_loop 0 els Map.empty"

text \<open>The normalised key of an error element (lines 37-38).\<close>

definition slot_key :: "element \<Rightarrow> string" where
  "slot_key el = normalizeKey (getAttribute el ''data-error-text'')"

text \<open>
  What the specification means by a matching error slot: the field's key is not empty
  and some error element of the form has it.
\<close>

definition matching_slot_exists :: "element list \<Rightarrow> field \<Rightarrow> bool" where
  "matching_slot_exists els field =
     (getFieldKey field \<noteq> [] \<and> list_ex (\<lambda>el. slot_key el = getFieldKey field) els)"

section \<open>Form state\<close>

text \<open>
  The state of a form: the array \<^verbatim>\<open>fields\<close> (line 240: the \<^verbatim>\<open>input\<close>, \<^verbatim>\<open>textarea\<close> and
  \<^verbatim>\<open>select\<close> elements in document order), the error elements in document order, the
  attribute \<^verbatim>\<open>novalidate\<close> and the field that received \<^verbatim>\<open>focus()\<close> last. Fields and
  error elements are taken to be different elements.
\<close>

record form =
  form_fields :: "field list"
  errorEls :: "element list"
  novalidate :: bool
  focused :: "nat option"

record event =
  defaultPrevented :: bool
  propagationStopped :: bool

datatype "context" = Input | Blur | Change | Submit | Other

section \<open>Error presenter\<close>

text \<open>
  \<^verbatim>\<open>setFieldErrorState(field, errorEl, hasError, reason)\<close>, lines 57-90. The field is
  given by its index. With \<^verbatim>\<open>errorEl\<close> the function \<^verbatim>\<open>Object\<close>, line 69 reads
  \<^verbatim>\<open>defaultMessage\<close> of \<^verbatim>\<open>Object.dataset\<close>, which is \<^verbatim>\<open>undefined\<close>: a \<^verbatim>\<open>TypeError\<close>,
  thrown before anything is changed. An exception carries the state it leaves.
\<close>

definition set_invalid :: "bool \<Rightarrow> field \<Rightarrow> field" where
  "set_invalid hasError field =
     field\<lparr>classList := (if hasError then insert ''is-invalid'' (classList field)
                          else classList field - {''is-invalid''})\<rparr>"

definition present :: "field \<Rightarrow> element \<Rightarrow> bool \<Rightarrow> string option \<Rightarrow> element" where
  "present field errorEl hasError rsn =
     (let captured = truthyString (getAttribute errorEl ''data-default-message'');
          defaultMessage = (if captured then orEmpty (getAttribute errorEl ''data-default-message'')
                            else textContent errorEl);
          el1 = (if captured then errorEl
                 else errorEl\<lparr>attrs := (attrs errorEl)(''data-default-message'' \<mapsto> defaultMessage)\<rparr>)
      in if hasError then
           el1\<lparr>classList := insert ''is-visible'' (classList el1),
               textContent :=
                 (if rsn = Some ''format'' \<and> hasAttribute field ''data-second-error''
                  then orEmpty (getAttribute field ''data-second-error'')
                  else defaultMessage)\<rparr>
         else
           el1\<lparr>classList := classList el1 - {''is-visible''}, textContent := defaultMessage\<rparr>)"

definition setFieldErrorState ::
  "form \<Rightarrow> nat \<Rightarrow> js_ref \<Rightarrow> bool \<Rightarrow> string option \<Rightarrow> (js_error \<times> form) + form" where
  "setFieldErrorState d i errorEl hasError rsn =
     (if \<not> truthy errorEl then
        Inr (d\<lparr>form_fields := (form_fields d)[i := set_invalid hasError (form_fields d ! i)]\<rparr>)
      else case errorEl of
        ElementRef j \<Rightarrow>
          Inr (d\<lparr>form_fields := (form_fields d)[i := set_invalid hasError (form_fields d ! i)],
                 errorEls := (errorEls d)[j := present (form_fields d ! i) (errorEls d ! j) hasError rsn]\<rparr>)
      | other \<Rightarrow> Inl (TypeError, d))"

section \<open>Form controller\<close>

text \<open>
  \<^verbatim>\<open>handleField(field, context)\<close>, lines 273-302. \<open>errorElFor\<close> is line 276,
  \<open>hasErrorToShow\<close> the value of that variable when line 300 passes it on.
\<close>

definition errorElFor :: "error_map \<Rightarrow> field \<Rightarrow> js_ref" where
  "errorElFor errorMap field =
     (if getFieldKey field \<noteq> [] then get_property errorMap (getFieldKey field) else Null)"

definition hasErrorToShow :: "field \<Rightarrow> context \<Rightarrow> verdict \<Rightarrow> bool" where
  "hasErrorToShow field ctx result =
     (let shown = \<not> valid result;
          shown1 = (if (type_attr field = ''checkbox'' \<or> type_attr field = ''radio'') \<and> ctx \<noteq> Submit
                    then False else shown)
      in if ctx = Input \<or> ctx = Blur \<or> ctx = Change then
           (if trim (val field) = [] then False else shown1)
         else shown1)"

definition handleField ::
  "engine \<Rightarrow> error_map \<Rightarrow> form \<Rightarrow> nat \<Rightarrow> context \<Rightarrow> (js_error \<times> form) + (form \<times> bool)" where
  "handleField eng errorMap d i ctx =
     (let field = form_fields d ! i;
          errorEl = errorElFor errorMap field;
          result = validateField eng field errorEl
      in case setFieldErrorState d i errorEl (hasErrorToShow field ctx result) (reason result) of
           Inl e \<Rightarrow> Inl e
         | Inr d' \<Rightarrow> Inr (d', valid result))"

text \<open>
  A field's error element, when the map gives one, is one of the form's error elements.
\<close>

definition slot_in_range :: "error_map \<Rightarrow> form \<Rightarrow> field \<Rightarrow> bool" where
  "slot_in_range errorMap d field =
     (case errorElFor errorMap field of ElementRef j \<Rightarrow> j < length (errorEls d) | other \<Rightarrow> True)"

text \<open>The test of lines 309 and 320 for the fields that the controller skips.\<close>

definition is_button :: "field \<Rightarrow> bool" where
  "is_button field = (type_prop field = ''submit'' \<or> type_prop field = ''button'')"

text \<open>
  \<^verbatim>\<open>validateForm()\<close>, lines 305-316: the \<^verbatim>\<open>forEach\<close> over the indices of \<^verbatim>\<open>fields\<close>,
  carrying the state and \<^verbatim>\<open>allValid\<close>.
\<close>

fun validateForm_loop ::
  "engine \<Rightarrow> error_map \<Rightarrow> nat list \<Rightarrow> form \<Rightarrow> bool \<Rightarrow> (js_error \<times> form) + (form \<times> bool)" where
  "validateForm_loop eng errorMap [] d allValid = Inr (d, allValid)"
| "validateForm_loop eng errorMap (i # rest) d allValid =
     (if is_button (form_fields d ! i) then validateForm_loop eng errorMap rest d allValid
      else case handleField eng errorMap d i Submit of
             Inl e \<Rightarrow> Inl e
           | Inr (d', v) \<Rightarrow> validateForm_loop eng errorMap rest d' (if \<not> v then False else allValid))"

definition validateForm :: "engine \<Rightarrow> error_map \<Rightarrow> form \<Rightarrow> (js_error \<times> form) + (form \<times> bool)" where
  "validateForm eng errorMap d = validateForm_loop eng errorMap [0..<length (form_fields d)] d True"

text \<open>\<^verbatim>\<open>fields.find(...)\<close> of line 358, giving the index of the element found.\<close>

fun find_from :: "nat \<Rightarrow> ('a \<Rightarrow> bool) \<Rightarrow> 'a list \<Rightarrow> nat option" where
  "find_from i P [] = None"
| "find_from i P (x # xs) = (if P x then Some i else find_from (Suc i) P xs)"

definition is_invalid :: "field \<Rightarrow> bool" where
  "is_invalid field = (''is-invalid'' \<in> classList field)"

text \<open>
  The \<^verbatim>\<open>submit\<close> listener, lines 351-365. An exception leaves the listener with the
  event as it is.
\<close>

definition submit_listener ::
  "engine \<Rightarrow> error_map \<Rightarrow> form \<Rightarrow> event \<Rightarrow> (js_error \<times> form \<times> event) + (form \<times> event)" where
  "submit_listener eng errorMap d ev =
     (case validateForm eng errorMap d of
        Inl (e, d') \<Rightarrow> Inl (e, d', ev)
      | Inr (d', isValid) \<Rightarrow>
          if \<not> isValid then
            Inr (case find_from 0 is_invalid (form_fields d') of
                   None \<Rightarrow> d'
                 | Some firstInvalid \<Rightarrow> d'\<lparr>focused := Some firstInvalid\<rparr>,
                 ev\<lparr>defaultPrevented := True, propagationStopped := True\<rparr>)
          else Inr (d', ev))"

text \<open>
  After the listener has run, whether by returning or by throwing, the browser submits
  the form unless the event's default was prevented.
\<close>

definition submit_proceeds :: "(js_error \<times> form \<times> event) + (form \<times> event) \<Rightarrow> bool" where
  "submit_proceeds r =
     (case r of Inl (e, d, ev) \<Rightarrow> \<not> defaultPrevented ev | Inr (d, ev) \<Rightarrow> \<not> defaultPrevented ev)"

text \<open>\<^verbatim>\<open>setupForm(form)\<close>, lines 234-242: what it leaves for the listeners.\<close>

definition setupForm :: "form \<Rightarrow> error_map \<times> form" where
  "setupForm d =
     (case buildErrorMap (errorEls d) of
        (errorMap, els) \<Rightarrow> (errorMap, d\<lparr>novalidate := True, errorEls := els\<rparr>))"

text \<open>
  For stating what a submit leaves behind: the verdict of a field under a given error
  map, and the field as \<open>validateForm\<close> leaves it (a button as it was, any other field
  marked invalid exactly when its verdict is invalid).
\<close>

definition verdict_of :: "engine \<Rightarrow> error_map \<Rightarrow> field \<Rightarrow> verdict" where
  "verdict_of eng errorMap field = validateField eng field (errorElFor errorMap field)"

definition marked :: "engine \<Rightarrow> error_map \<Rightarrow> field \<Rightarrow> field" where
  "marked eng errorMap field =
     (if is_button field then field
      else set_invalid (\<not> valid (verdict_of eng errorMap field)) field)"

section \<open>Example inputs\<close>

text \<open>
  An engine for the examples. Its \<open>Number\<close> reads a string of decimal digits, as the
  engine does for the empty string (zero) and for up to fifteen digits, and gives
  \<^verbatim>\<open>NaN\<close> for everything else; the examples call it on such strings only. Its
  \<open>RegExp\<close> is a table: the pattern \<^verbatim>\<open>abc\<close> is three literal characters, and every
  other pattern, the unparsable \<^verbatim>\<open>[\<close> among them, counts as a \<^verbatim>\<open>SyntaxError\<close>.
\<close>

fun decimal :: "nat \<Rightarrow> string \<Rightarrow> nat option" where
  "decimal acc [] = Some acc"
| "decimal acc (c # cs) = (if isDigit c then decimal (10 * acc + (code c - 48)) cs else None)"

definition sample_engine :: engine where
  "sample_engine =
     \<lparr>Number = (\<lambda>s. case decimal 0 s of None \<Rightarrow> NaN | Some n \<Rightarrow> Finite (real n)),
      RegExp = (\<lambda>p. if p = ''abc'' then Inr (Lit ''abc'') else Inl SyntaxError)\<rparr>"

text \<open>
  An \<^verbatim>\<open>input\<close> element with the given attributes and value, as markup gives it:
  no classes, not checked, and the property \<^verbatim>\<open>type\<close> as the browser derives it for the
  types the examples use (the lower-cased attribute, \<^verbatim>\<open>text\<close> without one).
\<close>

definition input_field :: "(string \<times> string) list \<Rightarrow> string \<Rightarrow> field" where
  "input_field as v =
     \<lparr>attrs = map_of as, classList = {}, textContent = [], tagName = ''INPUT'',
      type_prop = (case map_of as ''type'' of None \<Rightarrow> ''text'' | Some t \<Rightarrow> toLowerCase t),
      val = v, checked = False\<rparr>"

text \<open>
  An error element with its label, text and classes; a form and a \<^verbatim>\<open>submit\<close> event as
  the page loads them; and a form with an e-mail field, a checkbox and an error element
  for each.
\<close>

definition error_slot :: "string \<Rightarrow> string \<Rightarrow> string set \<Rightarrow> element" where
  "error_slot label text classes =
     \<lparr>attrs = map_of [(''data-error-text'', label)], classList = classes, textContent = text\<rparr>"

definition new_form :: "field list \<Rightarrow> element list \<Rightarrow> form" where
  "new_form fs els = \<lparr>form_fields = fs, errorEls = els, novalidate = False, focused = None\<rparr>"

definition new_event :: event where
  "new_event = \<lparr>defaultPrevented = False, propagationStopped = False\<rparr>"

definition consent_form :: form where
  "consent_form =
     new_form [input_field [(''name'', ''Email''), (''type'', ''email'')] [],
               input_field [(''name'', ''terms''), (''type'', ''checkbox'')] ''on'']
              [error_slot ''email'' ''Email is required'' {},
               error_slot ''Terms'' ''Please accept the terms'' {}]"

text \<open>
  The reading of a pattern constraint that the specification gives, for comparison with
  the script's \<open>test\<close>: the pattern matches the whole value, from its first position to
  its last.
\<close>

definition full_match :: "regex \<Rightarrow> string \<Rightarrow> bool" where
  "full_match r s = (length s \<in> set (ends r s 0))"

section \<open>Properties of the key normaliser\<close>

lemma toLowerChar_fixes_alnum: "isLowerAlnum c \<Longrightarrow> toLowerChar c = c"
  by (auto simp: isLowerAlnum_def isDigit_def toLowerChar_def)

lemma toLowerCase_filter_alnum:
  "toLowerCase (filter isLowerAlnum s) = filter isLowerAlnum s"
  by (induction s) (simp_all add: toLowerCase_def toLowerChar_fixes_alnum)

text \<open>
  Claim C4. \<open>normalizeKey\<close> is idempotent. It lower-cases its input and keeps exactly the
  characters of \<^verbatim>\<open>[a-z0-9]\<close>, so its result has no other character, two strings that
  agree after lower-casing have the same key, and a character outside the class (a
  separator) can be dropped anywhere without changing the key. \<^verbatim>\<open>"Last-Name"\<close>,
  \<^verbatim>\<open>"last_name"\<close> and \<^verbatim>\<open>"LAST NAME"\<close> all give \<^verbatim>\<open>"lastname"\<close>; \<^verbatim>\<open>null\<close> and the empty
  string give the empty string.
\<close>

theorem normalizeKey_idempotent:
  "normalizeKey (Some (normalizeKey x)) = normalizeKey x
   \<and> normalizeKey (Some s) = filter isLowerAlnum (map toLowerChar s)
   \<and> set (normalizeKey x) \<subseteq> {c. isLowerAlnum c}
   \<and> (toLowerCase s = toLowerCase t \<longrightarrow> normalizeKey (Some s) = normalizeKey (Some t))
   \<and> (\<not> isLowerAlnum (toLowerChar c) \<longrightarrow>
        normalizeKey (Some (a @ c # b)) = normalizeKey (Some (a @ b)))
   \<and> normalizeKey (Some ''Last-Name'') = ''lastname''
   \<and> normalizeKey (Some ''last_name'') = ''lastname''
   \<and> normalizeKey (Some ''LAST NAME'') = ''lastname''
   \<and> normalizeKey None = []
   \<and> normalizeKey (Some []) = []"
proof -
  have idem: "normalizeKey (Some (normalizeKey x)) = normalizeKey x"
    by (simp add: normalizeKey_def orEmpty_def toLowerCase_filter_alnum)
  have ex1: "normalizeKey (Some ''Last-Name'') = ''lastname''" by code_simp
  have ex2: "normalizeKey (Some ''last_name'') = ''lastname''" by code_simp
  have ex3: "normalizeKey (Some ''LAST NAME'') = ''lastname''" by code_simp
  show ?thesis
    using idem ex1 ex2 ex3
    by (auto simp: normalizeKey_def orEmpty_def toLowerCase_def)
qed

theorem normalizeKey_idempotent_witness:
  "toLowerCase ''LAST'' = toLowerCase ''last''
   \<and> \<not> isLowerAlnum (toLowerChar CHR ''-'')
   \<and> normalizeKey (Some (normalizeKey (Some ''Last-Name''))) = normalizeKey (Some ''Last-Name'')
   \<and> normalizeKey (Some ''LAST'') = normalizeKey (Some ''last'')
   \<and> normalizeKey (Some (''Last'' @ CHR ''-'' # ''Name'')) = normalizeKey (Some (''Last'' @ ''Name''))"
proof -
  have h1: "toLowerCase ''LAST'' = toLowerCase ''last''" by code_simp
  have h2: "\<not> isLowerAlnum (toLowerChar CHR ''-'')" by code_simp
  show ?thesis
    using h1 h2
      normalizeKey_idempotent [of "Some ''Last-Name''" "''LAST''" "''last''" "CHR ''-''" "''Last''" "''Name''"]
    by blast
qed

section \<open>Properties of the matcher\<close>

text \<open>
  The worklist of \<open>star_close\<close> ends with exactly the positions reachable by repeated
  steps: it stops when a round adds nothing, and the fuel (one round per remaining
  character) cannot run out before that. So \<open>ends\<close> lists exactly the end positions
  of \<open>matches\<close>, and \<open>test\<close> holds exactly when a match exists from some start.
\<close>

lemma rtranclp_bounds:
  assumes "R\<^sup>*\<^sup>* i j" and "i \<le> n"
    and "\<And>x y. x \<le> n \<Longrightarrow> R x y \<Longrightarrow> x \<le> y \<and> y \<le> (n::nat)"
  shows "i \<le> j \<and> j \<le> n"
  using assms(1,2)
proof (induction rule: rtranclp_induct)
  case base
  then show ?case by simp
next
  case (step y z)
  then show ?case
    using assms(3) [of y z] by auto
qed

lemma matches_bounds:
  "matches r s i j \<Longrightarrow> i \<le> length s \<Longrightarrow> i \<le> j \<and> j \<le> length s"
proof (induction r arbitrary: i j)
  case (Seq a b)
  then show ?case by fastforce
next
  case (Star a)
  then show ?case
    using rtranclp_bounds [of "matches a s" i j "length s"] by auto
qed auto

lemma star_close_correct:
  fixes step :: "nat \<Rightarrow> nat list"
  assumes sound: "\<And>x. i0 \<le> x \<Longrightarrow> x \<le> n \<Longrightarrow> set (step x) = {y. R x y}"
    and bounds: "\<And>x y. x \<le> n \<Longrightarrow> R x y \<Longrightarrow> x \<le> y \<and> y \<le> n"
    and "i0 \<le> n"
    and "set todo \<subseteq> set seen" and "distinct seen" and "set seen \<subseteq> {y. R\<^sup>*\<^sup>* i0 y}"
    and "i0 \<in> set seen"
    and "\<forall>x \<in> set seen - set todo. \<forall>y. R x y \<longrightarrow> y \<in> set seen"
    and "n - i0 + 1 \<le> length fuel + length seen"
  shows "set (star_close fuel step seen todo) = {y. R\<^sup>*\<^sup>* i0 y}"
  using assms(4-)
proof (induction fuel arbitrary: seen todo)
  case Nil
  have reach: "R\<^sup>*\<^sup>* i0 y \<Longrightarrow> i0 \<le> y \<and> y \<le> n" for y
    using rtranclp_bounds [of R i0 y n] bounds assms(3) by blast
  have sub: "set seen \<subseteq> {i0..n}"
    using Nil.prems(3) reach by auto
  have "card (set seen) = length seen"
    using Nil.prems(2) by (simp add: distinct_card)
  then have "card {i0..n} \<le> card (set seen)"
    using Nil.prems(6) by simp
  then have "set seen = {i0..n}"
    using sub by (simp add: card_seteq)
  then show ?case
    using Nil.prems(3) reach by auto
next
  case (Cons u fuel)
  have reach: "R\<^sup>*\<^sup>* i0 y \<Longrightarrow> i0 \<le> y \<and> y \<le> n" for y
    using rtranclp_bounds [of R i0 y n] bounds assms(3) by blast
  have range: "x \<in> set seen \<Longrightarrow> i0 \<le> x \<and> x \<le> n" for x
    using Cons.prems(3) reach by auto
  let ?new = "filter (\<lambda>j. j \<notin> set seen) (remdups (concat (map step todo)))"
  have st: "set (step x) = {y. R x y}" if "x \<in> set todo" for x
    using that Cons.prems(1) range sound by blast
  have "set (concat (map step todo)) = (\<Union>x \<in> set todo. set (step x))"
    by simp
  also have "\<dots> = (\<Union>x \<in> set todo. {y. R x y})"
    by (intro SUP_cong refl st)
  finally have succ: "set (concat (map step todo)) = {y. \<exists>x \<in> set todo. R x y}"
    by blast
  have s1: "set ?new = set (concat (map step todo)) - set seen"
    by (simp add: set_diff_eq)
  have new: "set ?new = {y. \<exists>x \<in> set todo. R x y} - set seen"
    by (simp only: s1 succ)
  show ?case
  proof (cases "?new = []")
    case True
    then have "{y. \<exists>x \<in> set todo. R x y} \<subseteq> set seen"
      using new by (metis Diff_eq_empty_iff set_empty)
    then have closed: "\<forall>x \<in> set seen. \<forall>y. R x y \<longrightarrow> y \<in> set seen"
      using Cons.prems(5) by blast
    have "y \<in> set seen" if "R\<^sup>*\<^sup>* i0 y" for y
      using that
    proof (induction rule: rtranclp_induct)
      case base
      then show ?case using Cons.prems(4) by simp
    next
      case (step y z)
      then show ?case using closed by blast
    qed
    then have "set seen = {y. R\<^sup>*\<^sup>* i0 y}"
      using Cons.prems(3) by auto
    with True show ?thesis by (simp add: Let_def)
  next
    case False
    have p1: "set ?new \<subseteq> set (seen @ ?new)" by simp
    have p2: "distinct (seen @ ?new)"
      using Cons.prems(2) by simp blast
    have p3: "set (seen @ ?new) \<subseteq> {y. R\<^sup>*\<^sup>* i0 y}"
    proof -
      have "R\<^sup>*\<^sup>* i0 y" if "y \<in> set ?new" for y
      proof -
        from that new obtain x where x: "x \<in> set todo" "R x y" by blast
        then have "x \<in> set seen"
          using Cons.prems(1) by blast
        then have "R\<^sup>*\<^sup>* i0 x"
          using Cons.prems(3) by blast
        then show ?thesis
          using x(2) by (rule rtranclp.rtrancl_into_rtrancl)
      qed
      then show ?thesis
        using Cons.prems(3) by auto
    qed
    have p4: "i0 \<in> set (seen @ ?new)"
      using Cons.prems(4) by simp
    have p5: "\<forall>x \<in> set (seen @ ?new) - set ?new. \<forall>y. R x y \<longrightarrow> y \<in> set (seen @ ?new)"
    proof (intro ballI allI impI)
      fix x y
      assume x: "x \<in> set (seen @ ?new) - set ?new" and r: "R x y"
      then have xs: "x \<in> set seen" by auto
      show "y \<in> set (seen @ ?new)"
      proof (cases "x \<in> set todo")
        case True
        then show ?thesis
          using r new by auto
      next
        case False
        then show ?thesis
          using xs r Cons.prems(5) by auto
      qed
    qed
    have "1 \<le> length ?new"
      using False by (cases ?new) simp_all
    then have p6: "n - i0 + 1 \<le> length fuel + length (seen @ ?new)"
      using Cons.prems(6) unfolding length_append list.size by linarith
    have "set (star_close fuel step (seen @ ?new) ?new) = {y. R\<^sup>*\<^sup>* i0 y}"
      by (rule Cons.IH [OF p1 p2 p3 p4 p5 p6])
    with False show ?thesis by (simp add: Let_def)
  qed
qed

lemma ends_matches:
  "i \<le> length s \<Longrightarrow> set (ends r s i) = {j. matches r s i j}"
proof (induction r arbitrary: i)
  case (Seq a b)
  have "set (ends b s k) = {j. matches b s k j}" if "matches a s i k" for k
    using that Seq.IH(2) [of k] matches_bounds [of a s i k] Seq.prems by simp
  then show ?case
    using Seq.IH(1) [OF Seq.prems] by auto
next
  case (Star a)
  have "set (star_close (drop i s) (ends a s) [i] [i]) = {y. (matches a s)\<^sup>*\<^sup>* i y}"
  proof (rule star_close_correct [where n = "length s"])
    show "set (ends a s x) = {y. matches a s x y}" if "i \<le> x" "x \<le> length s" for x
      using that Star.IH by simp
    show "x \<le> y \<and> y \<le> length s" if "x \<le> length s" "matches a s x y" for x y
      using that matches_bounds by simp
  qed (use Star.prems in auto)
  then show ?case by simp
next
  case (Lookahead a)
  then show ?case
    by (auto simp: set_empty [symmetric] simp del: set_empty)
qed auto

lemma test_matches: "test r s \<longleftrightarrow> (\<exists>i \<le> length s. \<exists>j. matches r s i j)"
proof -
  have "ends r s i \<noteq> [] \<longleftrightarrow> (\<exists>j. matches r s i j)" if "i \<le> length s" for i
    using ends_matches [OF that, of r] by (auto simp: set_empty [symmetric] simp del: set_empty)
  moreover have "test r s \<longleftrightarrow> (\<exists>i \<le> length s. ends r s i \<noteq> [])"
    by (auto simp: test_def list_ex_iff less_Suc_eq_le simp del: upt_Suc)
  ultimately show ?thesis
    by blast
qed

text \<open>
  A run \<^verbatim>\<open>[...]+\<close> of a class matches the non-empty stretches whose characters are all
  in the class. With that, \<open>emailPattern\<close> matches exactly the strings of the shape
  \<open>email_shape\<close>.
\<close>

lemma star_class_matches:
  "(matches (Class P) s)\<^sup>*\<^sup>* i j \<longleftrightarrow>
     i \<le> j \<and> (i = j \<or> j \<le> length s) \<and> (\<forall>k. i \<le> k \<and> k < j \<longrightarrow> P (s ! k))"
proof
  assume "(matches (Class P) s)\<^sup>*\<^sup>* i j"
  then show "i \<le> j \<and> (i = j \<or> j \<le> length s) \<and> (\<forall>k. i \<le> k \<and> k < j \<longrightarrow> P (s ! k))"
  proof (induction rule: rtranclp_induct)
    case base
    show ?case by auto
  next
    case (step y z)
    then show ?case
      by (auto simp: less_Suc_eq)
  qed
next
  assume a: "i \<le> j \<and> (i = j \<or> j \<le> length s) \<and> (\<forall>k. i \<le> k \<and> k < j \<longrightarrow> P (s ! k))"
  then have "i \<le> j" by simp
  then show "(matches (Class P) s)\<^sup>*\<^sup>* i j"
    using a
  proof (induction j rule: dec_induct)
    case base
    then show ?case by simp
  next
    case (step n)
    then have "(matches (Class P) s)\<^sup>*\<^sup>* i n" by auto
    moreover have "matches (Class P) s n (Suc n)"
      using step by auto
    ultimately show ?case
      by (rule rtranclp.rtrancl_into_rtrancl)
  qed
qed

lemma plus_class_matches:
  "matches (Plus (Class P)) s i j \<longleftrightarrow>
     i < j \<and> j \<le> length s \<and> (\<forall>k. i \<le> k \<and> k < j \<longrightarrow> P (s ! k))"
  (is "?L \<longleftrightarrow> ?R")
proof
  assume ?L
  then have a: "i < length s" "P (s ! i)" "(matches (Class P) s)\<^sup>*\<^sup>* (Suc i) j"
    by (auto simp: Plus_def)
  from a(3) have b: "Suc i \<le> j" "Suc i = j \<or> j \<le> length s"
    "\<forall>k. Suc i \<le> k \<and> k < j \<longrightarrow> P (s ! k)"
    unfolding star_class_matches by auto
  have "P (s ! k)" if "i \<le> k" "k < j" for k
    using that a(2) b(3) by (cases "k = i") auto
  with a b show ?R by auto
next
  assume r: ?R
  then have "i < length s" "P (s ! i)" by auto
  moreover have "(matches (Class P) s)\<^sup>*\<^sup>* (Suc i) j"
    unfolding star_class_matches using r by auto
  ultimately show ?L by (auto simp: Plus_def)
qed

lemma chr_matches: "matches (Chr c) s i j \<longleftrightarrow> i < length s \<and> s ! i = c \<and> j = Suc i"
  by (simp add: Chr_def)

lemma emailPattern_matches:
  "matches emailPattern s i j \<longleftrightarrow>
     i = 0 \<and> j = length s
     \<and> (\<exists>a b. 0 < a \<and> Suc a < b \<and> Suc b < length s \<and> s ! a = CHR ''@'' \<and> s ! b = CHR ''.''
            \<and> (\<forall>k < length s. k \<noteq> a \<longrightarrow> notSpaceAt (s ! k)))"
proof -
  have dot: "notSpaceAt CHR ''.''" by code_simp
  have e: "matches emailPattern s i j \<longleftrightarrow>
     i = 0 \<and> j = length s
     \<and> (\<exists>a b. matches (Plus (Class notSpaceAt)) s 0 a \<and> a < length s \<and> s ! a = CHR ''@''
            \<and> matches (Plus (Class notSpaceAt)) s (Suc a) b \<and> b < length s \<and> s ! b = CHR ''.''
            \<and> matches (Plus (Class notSpaceAt)) s (Suc b) (length s))"
    unfolding emailPattern_def matches.simps(3,6,7) chr_matches by blast
  have "matches emailPattern s i j \<longleftrightarrow>
     i = 0 \<and> j = length s
     \<and> (\<exists>a b. 0 < a \<and> Suc a < b \<and> Suc b < length s \<and> s ! a = CHR ''@'' \<and> s ! b = CHR ''.''
            \<and> (\<forall>k. k < a \<longrightarrow> notSpaceAt (s ! k))
            \<and> (\<forall>k. Suc a \<le> k \<and> k < b \<longrightarrow> notSpaceAt (s ! k))
            \<and> (\<forall>k. Suc b \<le> k \<and> k < length s \<longrightarrow> notSpaceAt (s ! k)))"
  proof -
    have "(matches (Plus (Class notSpaceAt)) s 0 a \<and> a < length s \<and> s ! a = CHR ''@''
            \<and> matches (Plus (Class notSpaceAt)) s (Suc a) b \<and> b < length s \<and> s ! b = CHR ''.''
            \<and> matches (Plus (Class notSpaceAt)) s (Suc b) (length s))
        \<longleftrightarrow> (0 < a \<and> Suc a < b \<and> Suc b < length s \<and> s ! a = CHR ''@'' \<and> s ! b = CHR ''.''
            \<and> (\<forall>k. k < a \<longrightarrow> notSpaceAt (s ! k))
            \<and> (\<forall>k. Suc a \<le> k \<and> k < b \<longrightarrow> notSpaceAt (s ! k))
            \<and> (\<forall>k. Suc b \<le> k \<and> k < length s \<longrightarrow> notSpaceAt (s ! k)))" for a b
      unfolding plus_class_matches by auto
    then show ?thesis
      unfolding e by simp
  qed
  also have "\<dots> \<longleftrightarrow> i = 0 \<and> j = length s
     \<and> (\<exists>a b. 0 < a \<and> Suc a < b \<and> Suc b < length s \<and> s ! a = CHR ''@'' \<and> s ! b = CHR ''.''
            \<and> (\<forall>k < length s. k \<noteq> a \<longrightarrow> notSpaceAt (s ! k)))"
  proof -
    have "(\<forall>k. k < a \<longrightarrow> notSpaceAt (s ! k))
            \<and> (\<forall>k. Suc a \<le> k \<and> k < b \<longrightarrow> notSpaceAt (s ! k))
            \<and> (\<forall>k. Suc b \<le> k \<and> k < length s \<longrightarrow> notSpaceAt (s ! k))
         \<longleftrightarrow> (\<forall>k < length s. k \<noteq> a \<longrightarrow> notSpaceAt (s ! k))"
      if "Suc a < b" "Suc b < length s" "s ! b = CHR ''.''" for a b
    proof
      assume l: "(\<forall>k. k < a \<longrightarrow> notSpaceAt (s ! k))
            \<and> (\<forall>k. Suc a \<le> k \<and> k < b \<longrightarrow> notSpaceAt (s ! k))
            \<and> (\<forall>k. Suc b \<le> k \<and> k < length s \<longrightarrow> notSpaceAt (s ! k))"
      show "\<forall>k < length s. k \<noteq> a \<longrightarrow> notSpaceAt (s ! k)"
      proof (intro allI impI)
        fix k assume k: "k < length s" "k \<noteq> a"
        consider "k < a" | "Suc a \<le> k \<and> k < b" | "k = b" | "Suc b \<le> k"
          using k by linarith
        then show "notSpaceAt (s ! k)"
          using l k that(3) dot by cases auto
      qed
    next
      assume "\<forall>k < length s. k \<noteq> a \<longrightarrow> notSpaceAt (s ! k)"
      then show "(\<forall>k. k < a \<longrightarrow> notSpaceAt (s ! k))
            \<and> (\<forall>k. Suc a \<le> k \<and> k < b \<longrightarrow> notSpaceAt (s ! k))
            \<and> (\<forall>k. Suc b \<le> k \<and> k < length s \<longrightarrow> notSpaceAt (s ! k))"
        using that by auto
    qed
    then show ?thesis by blast
  qed
  finally show ?thesis .
qed

lemma test_emailPattern_positions:
  "test emailPattern s \<longleftrightarrow>
     (\<exists>a b. 0 < a \<and> Suc a < b \<and> Suc b < length s \<and> s ! a = CHR ''@'' \<and> s ! b = CHR ''.''
            \<and> (\<forall>k < length s. k \<noteq> a \<longrightarrow> notSpaceAt (s ! k)))"
  unfolding test_matches emailPattern_matches by auto

lemma emailPattern_shape:
  "test emailPattern s \<longleftrightarrow>
     (\<exists>l d1 d2. s = l @ CHR ''@'' # d1 @ CHR ''.'' # d2
        \<and> l \<noteq> [] \<and> d1 \<noteq> [] \<and> d2 \<noteq> []
        \<and> list_all notSpaceAt (l @ d1 @ d2))"
  (is "?L \<longleftrightarrow> ?R")
proof
  assume ?L
  then obtain a b where ab: "0 < a" "Suc a < b" "Suc b < length s"
    and at: "s ! a = CHR ''@''" and dot: "s ! b = CHR ''.''"
    and cs: "\<forall>k < length s. k \<noteq> a \<longrightarrow> notSpaceAt (s ! k)"
    unfolding test_emailPattern_positions by blast
  let ?l = "take a s" and ?r = "drop (Suc a) s"
  let ?d1 = "take (b - Suc a) ?r" and ?d2 = "drop (Suc b) s"
  have s1: "s = ?l @ CHR ''@'' # ?r"
    using ab at id_take_nth_drop [of a s] by simp
  have rb: "?r ! (b - Suc a) = CHR ''.''"
    using ab dot by simp
  have "?r = ?d1 @ ?r ! (b - Suc a) # drop (Suc (b - Suc a)) ?r"
    using ab by (intro id_take_nth_drop) simp
  moreover have "drop (Suc (b - Suc a)) ?r = ?d2"
    using ab by simp
  ultimately have s2: "?r = ?d1 @ CHR ''.'' # ?d2"
    using rb by simp
  have e: "s = ?l @ CHR ''@'' # ?d1 @ CHR ''.'' # ?d2"
    using s1 s2 by simp
  have n: "?l \<noteq> []" "?d1 \<noteq> []" "?d2 \<noteq> []"
    using ab by auto
  have c1: "notSpaceAt c" if "c \<in> set ?l" for c
  proof -
    from that obtain k where "k < length ?l" "c = ?l ! k"
      by (metis in_set_conv_nth)
    then show ?thesis using cs ab by simp
  qed
  have c2: "notSpaceAt c" if "c \<in> set ?d1" for c
  proof -
    from that obtain k where "k < length ?d1" "c = ?d1 ! k"
      by (metis in_set_conv_nth)
    then show ?thesis using cs ab by simp
  qed
  have c3: "notSpaceAt c" if "c \<in> set ?d2" for c
  proof -
    from that obtain k where "k < length ?d2" "c = ?d2 ! k"
      by (metis in_set_conv_nth)
    then show ?thesis using cs ab by simp
  qed
  have "list_all notSpaceAt (?l @ ?d1 @ ?d2)"
    using c1 c2 c3 by (auto simp: list_all_iff)
  with e n show ?R by blast
next
  assume ?R
  then obtain l d1 d2 where s: "s = l @ CHR ''@'' # d1 @ CHR ''.'' # d2"
    and n: "l \<noteq> []" "d1 \<noteq> []" "d2 \<noteq> []"
    and c: "list_all notSpaceAt (l @ d1 @ d2)"
    by blast
  let ?a = "length l" and ?b = "length l + Suc (length d1)"
  have dot: "notSpaceAt CHR ''.''" by code_simp
  have "0 < ?a" "Suc ?a < ?b" "Suc ?b < length s"
    using n s by auto
  moreover have "s ! ?a = CHR ''@''"
    using s by simp
  moreover have "s ! ?b = CHR ''.''"
    unfolding s by (simp add: nth_append nth_Cons')
  moreover have "notSpaceAt (s ! k)" if "k < length s" "k \<noteq> ?a" for k
  proof (cases "k < length l")
    case True
    then have "s ! k \<in> set l"
      unfolding s by (simp add: nth_append)
    then show ?thesis
      using c by (auto simp: list_all_iff)
  next
    case False
    let ?m = "k - Suc (length l)"
    have k: "k = length l + Suc ?m"
      using False that(2) by simp
    have m: "?m < length (d1 @ CHR ''.'' # d2)"
      using that(1) k unfolding s by simp
    have "s ! k = (d1 @ CHR ''.'' # d2) ! ?m"
      unfolding s by (subst k) (simp add: nth_append del: append.simps)
    then have "s ! k \<in> set (d1 @ CHR ''.'' # d2)"
      using m by (metis nth_mem)
    then show ?thesis
      using c dot by (auto simp: list_all_iff)
  qed
  ultimately show ?L
    unfolding test_emailPattern_positions by blast
qed

lemma test_emailPattern: "test emailPattern s = email_shape s"
  unfolding email_shape_def by (rule emailPattern_shape)

lemma email_shape_domain:
  assumes "l \<noteq> []" and "list_all notSpaceAt l" and "d1 \<noteq> []" and "d2 \<noteq> []"
    and "list_all notSpaceAt (d1 @ d2)"
  shows "email_shape (l @ CHR ''@'' # d1 @ CHR ''.'' # d2)"
  using assms unfolding email_shape_def by (intro exI [of _ l] exI [of _ d1] exI [of _ d2]) simp

section \<open>Properties of the field validator\<close>

lemma tel_check_cases: "tel_check type value = None \<or> tel_check type value = Some format_error"
  by (simp add: tel_check_def)

lemma email_check_cases:
  "email_check field type value = None \<or> email_check field type value = Some format_error"
  by (simp add: email_check_def)

lemma url_check_cases: "url_check type value = None \<or> url_check type value = Some format_error"
  by (simp add: url_check_def)

lemma number_check_cases:
  "value \<noteq> [] \<Longrightarrow>
   number_check eng field type value req = None
   \<or> number_check eng field type value req = Some format_error"
  by (simp add: number_check_def)

lemma length_check_cases:
  "length_check eng field value = None \<or> length_check eng field value = Some format_error"
  by (simp add: length_check_def)

lemma pattern_check_cases:
  "pattern_check eng field value = None \<or> pattern_check eng field value = Some format_error"
  by (simp add: pattern_check_def split: option.splits sum.splits)

lemma first_return_cases:
  "list_all (\<lambda>c. c = None \<or> c = Some format_error) checks \<Longrightarrow>
   first_return checks = ok \<or> first_return checks = format_error"
  by (induction checks rule: first_return.induct) auto

lemma checks_cases:
  "value \<noteq> [] \<Longrightarrow>
   first_return
     [tel_check type value, email_check field type value, url_check type value,
      number_check eng field type value req, length_check eng field value,
      pattern_check eng field value] = ok
   \<or> first_return
     [tel_check type value, email_check field type value, url_check type value,
      number_check eng field type value req, length_check eng field value,
      pattern_check eng field value] = format_error"
  by (rule first_return_cases)
    (simp add: tel_check_cases email_check_cases url_check_cases number_check_cases
      length_check_cases pattern_check_cases)

lemma validateField_cases:
  "validateField eng field errorEl = ok
   \<or> validateField eng field errorEl = required_error
   \<or> validateField eng field errorEl = format_error"
proof (cases "trim (val field) = []")
  case True
  then show ?thesis
    by (simp add: validateField_def Let_def ok_def required_error_def)
next
  case False
  from checks_cases [OF False] show ?thesis
    by (auto simp: validateField_def Let_def ok_def required_error_def)
qed

text \<open>
  The validator on the examples of the specification and a few more: telephone numbers,
  numbers with bounds, addresses, lengths and patterns.
\<close>

lemma validateField_examples:
  "validateField sample_engine (input_field [(''type'', ''tel'')] ''12a'') Undefined = format_error"
  "validateField sample_engine (input_field [(''type'', ''tel'')] ''+1234'') Undefined = ok"
  "validateField sample_engine (input_field [(''type'', ''tel'')] ''abc'') Undefined = format_error"
  "validateField sample_engine (input_field [(''type'', ''tel'')] ''+++'') Undefined = format_error"
  "validateField sample_engine (input_field [(''type'', ''number''), (''min'', ''5'')] ''3'') Undefined
     = format_error"
  "validateField sample_engine (input_field [(''type'', ''number''), (''min'', ''5'')] ''5'') Undefined
     = ok"
  "validateField sample_engine (input_field [(''type'', ''number''), (''max'', ''5'')] ''12'') Undefined
     = format_error"
  "validateField sample_engine (input_field [(''type'', ''url'')] ''example.com'') Undefined = ok"
  "validateField sample_engine (input_field [(''type'', ''url'')] ''HTTPS://example.com'') Undefined = ok"
  "validateField sample_engine (input_field [(''type'', ''url'')] ''example'') Undefined = format_error"
  "validateField sample_engine (input_field [(''type'', ''url'')] ''a b.com'') Undefined = format_error"
  "validateField sample_engine (input_field [(''maxlength'', ''3'')] ''abcd'') Undefined = format_error"
  "validateField sample_engine (input_field [(''minlength'', ''3'')] ''ab'') Undefined = format_error"
  "validateField sample_engine (input_field [(''minlength'', ''3'')] ''abc'') Undefined = ok"
  "validateField sample_engine (input_field [(''pattern'', ''['')] ''abc'') Undefined = ok"
  "validateField sample_engine (input_field [(''pattern'', ''abc'')] ''ab'') Undefined = format_error"
  by (simp_all add: ok_def format_error_def) code_simp+

text \<open>
  Claim C10. Every verdict of \<open>validateField\<close> is one of three records: valid with no
  reason, invalid with the reason \<^verbatim>\<open>'required'\<close>, or invalid with the reason \<^verbatim>\<open>'format'\<close>.
  So a verdict is valid exactly when its reason is \<^verbatim>\<open>null\<close>. (The return of line 188,
  which could pair an invalid verdict with no reason, is never reached: the value is not
  empty there.)
\<close>

theorem validateField_verdict_shape:
  "validateField eng field errorEl \<in>
     {\<lparr>valid = True, reason = None\<rparr>,
      \<lparr>valid = False, reason = Some ''required''\<rparr>,
      \<lparr>valid = False, reason = Some ''format''\<rparr>}
   \<and> valid (validateField eng field errorEl) = (reason (validateField eng field errorEl) = None)"
  using validateField_cases [of eng field errorEl]
  by (auto simp: ok_def required_error_def format_error_def)

text \<open>
  How the verdict depends on requiredness as \<open>validateField\<close> computes it (line 104-106:
  the attribute \<^verbatim>\<open>required\<close>, or a truthy argument \<^verbatim>\<open>errorEl\<close>). For a field that is
  neither a checkbox nor a radio button and whose value trims to the empty string, the
  verdict is invalid with the reason \<^verbatim>\<open>'required'\<close> when the field is required, and
  valid when it is not. A checkbox or radio button is invalid, with the reason
  \<^verbatim>\<open>'required'\<close>, exactly when it is required and not checked.
\<close>

lemma validateField_required:
  "isRequired field errorEl = (hasAttribute field ''required'' \<or> truthy errorEl)
   \<and> (type_attr field \<noteq> ''checkbox'' \<and> type_attr field \<noteq> ''radio'' \<and> trim (val field) = [] \<longrightarrow>
        validateField eng field errorEl =
          (if hasAttribute field ''required'' \<or> truthy errorEl
           then \<lparr>valid = False, reason = Some ''required''\<rparr>
           else \<lparr>valid = True, reason = None\<rparr>))
   \<and> ((type_attr field = ''checkbox'' \<or> type_attr field = ''radio'') \<longrightarrow>
        validateField eng field errorEl =
          (if (hasAttribute field ''required'' \<or> truthy errorEl) \<and> \<not> checked field
           then \<lparr>valid = False, reason = Some ''required''\<rparr>
           else \<lparr>valid = True, reason = None\<rparr>))"
  by (auto simp: validateField_def Let_def isRequired_def ok_def required_error_def)

lemma validateField_required_examples:
  "type_attr (input_field [(''name'', ''email'')] ''  '') \<noteq> ''checkbox''
   \<and> type_attr (input_field [(''name'', ''email'')] ''  '') \<noteq> ''radio''
   \<and> trim (val (input_field [(''name'', ''email'')] ''  '')) = []
   \<and> validateField sample_engine (input_field [(''name'', ''email'')] ''  '') (ElementRef 0)
       = \<lparr>valid = False, reason = Some ''required''\<rparr>
   \<and> validateField sample_engine (input_field [(''name'', ''email'')] ''  '') Undefined
       = \<lparr>valid = True, reason = None\<rparr>
   \<and> type_attr (input_field [(''type'', ''Checkbox''), (''required'', [])] ''on'') = ''checkbox''
   \<and> validateField sample_engine
         (input_field [(''type'', ''Checkbox''), (''required'', [])] ''on'') Undefined
       = \<lparr>valid = False, reason = Some ''required''\<rparr>"
proof -
  let ?f = "input_field [(''name'', ''email'')] ''  ''"
  let ?c = "input_field [(''type'', ''Checkbox''), (''required'', [])] ''on''"
  have h1: "type_attr ?f \<noteq> ''checkbox''" by code_simp
  have h2: "type_attr ?f \<noteq> ''radio''" by code_simp
  have h3: "trim (val ?f) = []" by code_simp
  have h4: "\<not> hasAttribute ?f ''required''" by code_simp
  have h5: "type_attr ?c = ''checkbox''" by code_simp
  have h6: "hasAttribute ?c ''required''" by code_simp
  have h7: "\<not> checked ?c" by code_simp
  show ?thesis
    using h1 h2 h3 h4 h5 h6 h7
      validateField_required [of ?f "ElementRef 0" sample_engine]
      validateField_required [of ?f Undefined sample_engine]
      validateField_required [of ?c Undefined sample_engine]
    by simp
qed

lemma indexOfFrom_absent: "indexOfFrom i xs x = -1 \<longleftrightarrow> x \<notin> set xs" if "0 \<le> i"
  using that by (induction xs arbitrary: i) auto

lemma indexOf_absent: "indexOf xs x = -1 \<longleftrightarrow> x \<notin> set xs"
  by (simp add: indexOf_def indexOfFrom_absent)

lemma lastIndexOfFrom_nonneg:
  "0 \<le> i \<Longrightarrow> 0 \<le> found \<Longrightarrow> 0 \<le> lastIndexOfFrom found i xs x"
  by (induction xs arbitrary: found i) auto

lemma lastIndexOfFrom_absent:
  "0 \<le> i \<Longrightarrow> lastIndexOfFrom (-1) i xs x = -1 \<longleftrightarrow> x \<notin> set xs"
proof (induction xs arbitrary: i)
  case Nil
  then show ?case by simp
next
  case (Cons y ys)
  then show ?case
    using lastIndexOfFrom_nonneg [of "i + 1" i ys x] by auto
qed

lemma lastIndexOf_absent: "lastIndexOf xs x = -1 \<longleftrightarrow> x \<notin> set xs"
  by (simp add: lastIndexOf_def lastIndexOfFrom_absent)

lemma lastIndexOfFrom_found:
  "x \<notin> set ys \<Longrightarrow> lastIndexOfFrom found i ys x = found"
  by (induction ys arbitrary: i) auto

lemma lastIndexOfFrom_append:
  "x \<notin> set ys \<Longrightarrow> lastIndexOfFrom found i (xs @ x # ys) x = i + int (length xs)"
  by (induction xs arbitrary: found i) (auto simp: lastIndexOfFrom_found)

lemma lastIndexOf_append:
  "x \<notin> set ys \<Longrightarrow> lastIndexOf (xs @ x # ys) x = int (length xs)"
  by (simp add: lastIndexOf_def lastIndexOfFrom_append)

lemma email_domain_append:
  assumes "CHR ''@'' \<notin> set d"
  shows "email_domain (l @ CHR ''@'' # d) = toLowerCase d"
proof -
  have "lastIndexOf (l @ CHR ''@'' # d) CHR ''@'' + 1 = int (Suc (length l))"
    using assms by (simp add: lastIndexOf_append)
  then show ?thesis
    by (simp add: email_domain_def slice_def del: of_nat_Suc)
qed

lemma set_ends_Seq: "set (ends (Seq a b) s i) = (\<Union>k \<in> set (ends a s i). set (ends b s k))"
  by simp

lemma ends_Chr: "j \<in> set (ends (Chr c) s i) \<longleftrightarrow> i < length s \<and> s ! i = c \<and> j = Suc i"
  by (auto simp: Chr_def)

lemma emailPattern_has_at:
  assumes "test emailPattern v"
  shows "CHR ''@'' \<in> set v"
proof -
  from assms obtain i where "ends emailPattern v i \<noteq> []"
    unfolding test_def list_ex_iff by blast
  then obtain j where "j \<in> set (ends emailPattern v i)"
    by (cases "ends emailPattern v i") auto
  then obtain k m where "m \<in> set (ends (Chr CHR ''@'') v k)"
    unfolding emailPattern_def set_ends_Seq by blast
  then have "k < length v \<and> v ! k = CHR ''@''"
    by (simp add: ends_Chr)
  then show ?thesis
    by (metis nth_mem)
qed

lemma email_checks_only:
  assumes "type_attr field = ''email''" and "trim (val field) \<noteq> []"
  shows "validateField eng field errorEl =
           first_return [email_check field ''email'' (trim (val field)),
                         length_check eng field (trim (val field)),
                         pattern_check eng field (trim (val field))]"
  using assms
  by (cases "email_check field ''email'' (trim (val field))")
    (simp_all add: validateField_def Let_def tel_check_def url_check_def number_check_def)

lemma email_rejected:
  assumes "type_attr field = ''email''" and "trim (val field) \<noteq> []"
    and "email_check field ''email'' (trim (val field)) = Some format_error"
  shows "validateField eng field errorEl = format_error"
  using assms by (simp add: email_checks_only)

lemma email_accepted:
  assumes "type_attr field = ''email''" and "trim (val field) \<noteq> []"
    and "email_check field ''email'' (trim (val field)) = None"
    and "getAttribute field ''minlength'' = None"
    and "getAttribute field ''maxlength'' = None"
    and "getAttribute field ''pattern'' = None"
  shows "validateField eng field errorEl = ok"
  using assms by (simp add: email_checks_only length_check_def pattern_check_def)

lemma email_check_None:
  "email_check field ''email'' v = None \<longleftrightarrow>
     test emailPattern v
     \<and> (hasAttribute field ''data-business-email-only'' \<longrightarrow> email_domain v \<notin> set freeDomains)"
  using emailPattern_has_at [of v]
  by (auto simp: email_check_def lastIndexOf_absent indexOf_absent)

lemma email_check_Some:
  "email_check field ''email'' v = Some format_error \<longleftrightarrow>
     \<not> test emailPattern v
     \<or> (hasAttribute field ''data-business-email-only'' \<and> email_domain v \<in> set freeDomains)"
  using email_check_None [of field v] email_check_cases [of field "''email''" v]
  by auto

text \<open>
  Claim C7. For a field of type \<^verbatim>\<open>email\<close> with a non-empty trimmed value: the script's
  pattern holds exactly of the values of the shape \<^verbatim>\<open>local@domain.tld\<close>
  (\<open>email_shape\<close>), and the verdict is valid only if the value has that shape. With the
  attribute \<^verbatim>\<open>data-business-email-only\<close>, a value whose lower-cased part after the last
  \<^verbatim>\<open>@\<close> is one of the \<open>freeDomains\<close> (nineteen domains) has the verdict invalid, reason
  \<^verbatim>\<open>'format'\<close>; so has every value that ends in \<^verbatim>\<open>@gmail.com\<close>. On a field with no
  \<^verbatim>\<open>minlength\<close>, \<^verbatim>\<open>maxlength\<close> or \<^verbatim>\<open>pattern\<close> attribute, which are checked after the
  e-mail block, \<^verbatim>\<open>"a@b.com"\<close> is valid, and so is every value made of a well-formed
  local part and \<^verbatim>\<open>@acme.io\<close>, with the business-only attribute or without.
\<close>

theorem validateField_email:
  "type_attr field = ''email'' \<and> trim (val field) \<noteq> [] \<longrightarrow>
     test emailPattern (trim (val field)) = email_shape (trim (val field))
   \<and> (valid (validateField eng field errorEl) \<longrightarrow> email_shape (trim (val field)))
   \<and> (hasAttribute field ''data-business-email-only''
        \<and> email_domain (trim (val field)) \<in> set freeDomains \<longrightarrow>
          validateField eng field errorEl = \<lparr>valid = False, reason = Some ''format''\<rparr>)
   \<and> (CHR ''@'' \<notin> set d \<longrightarrow> email_domain (l @ CHR ''@'' # d) = toLowerCase d)
   \<and> length freeDomains = 19
   \<and> (hasAttribute field ''data-business-email-only'' \<and> trim (val field) = l @ ''@gmail.com'' \<longrightarrow>
          validateField eng field errorEl = \<lparr>valid = False, reason = Some ''format''\<rparr>)
   \<and> (getAttribute field ''minlength'' = None \<and> getAttribute field ''maxlength'' = None
        \<and> getAttribute field ''pattern'' = None \<longrightarrow>
          (trim (val field) = ''a@b.com'' \<longrightarrow>
             validateField eng field errorEl = \<lparr>valid = True, reason = None\<rparr>)
        \<and> (l \<noteq> [] \<and> list_all notSpaceAt l \<and> trim (val field) = l @ ''@acme.io'' \<longrightarrow>
             validateField eng field errorEl = \<lparr>valid = True, reason = None\<rparr>))"
proof (intro impI)
  assume a: "type_attr field = ''email'' \<and> trim (val field) \<noteq> []"
  let ?v = "trim (val field)"
  let ?flag = "hasAttribute field ''data-business-email-only''"
  have t: "type_attr field = ''email''" and ne: "?v \<noteq> []"
    using a by simp_all
  have c0: "test emailPattern ?v = email_shape ?v"
    by (rule test_emailPattern)
  have c1: "valid (validateField eng field errorEl) \<longrightarrow> email_shape ?v"
    using email_rejected [OF t ne, of eng errorEl] email_check_Some [of field ?v]
    by (auto simp: format_error_def test_emailPattern)
  have deny: "?flag \<and> email_domain ?v \<in> set freeDomains \<longrightarrow>
      validateField eng field errorEl = \<lparr>valid = False, reason = Some ''format''\<rparr>"
    using email_rejected [OF t ne, of eng errorEl] email_check_Some [of field ?v]
    by (auto simp: format_error_def)
  have c3: "CHR ''@'' \<notin> set d \<longrightarrow> email_domain (l @ CHR ''@'' # d) = toLowerCase d"
    by (simp add: email_domain_append)
  have c4: "length freeDomains = 19"
    by (simp add: freeDomains_def)
  have gd: "email_domain (l @ ''@gmail.com'') = ''gmail.com''"
  proof -
    have "email_domain (l @ CHR ''@'' # ''gmail.com'') = toLowerCase ''gmail.com''"
      by (rule email_domain_append) simp
    moreover have "toLowerCase ''gmail.com'' = ''gmail.com''" by code_simp
    ultimately show ?thesis by simp
  qed
  have ad: "email_domain (l @ ''@acme.io'') = ''acme.io''"
  proof -
    have "email_domain (l @ CHR ''@'' # ''acme.io'') = toLowerCase ''acme.io''"
      by (rule email_domain_append) simp
    moreover have "toLowerCase ''acme.io'' = ''acme.io''" by code_simp
    ultimately show ?thesis by simp
  qed
  have gmail: "''gmail.com'' \<in> set freeDomains" by (simp add: freeDomains_def)
  have acme: "''acme.io'' \<notin> set freeDomains" by (simp add: freeDomains_def)
  have c5: "?flag \<and> ?v = l @ ''@gmail.com'' \<longrightarrow>
      validateField eng field errorEl = \<lparr>valid = False, reason = Some ''format''\<rparr>"
    using deny gd gmail by auto
  have m: "test emailPattern ''a@b.com''" by code_simp
  have dm: "email_domain ''a@b.com'' \<notin> set freeDomains" by code_simp
  have ash: "test emailPattern (l @ ''@acme.io'')" if "l \<noteq> []" "list_all notSpaceAt l"
  proof -
    have "list_all notSpaceAt (''acme'' @ ''io'')" by code_simp
    then have "email_shape (l @ CHR ''@'' # ''acme'' @ CHR ''.'' # ''io'')"
      using that by (intro email_shape_domain) simp_all
    then show ?thesis
      by (simp add: test_emailPattern)
  qed
  have c6: "getAttribute field ''minlength'' = None \<and> getAttribute field ''maxlength'' = None
        \<and> getAttribute field ''pattern'' = None \<longrightarrow>
          (?v = ''a@b.com'' \<longrightarrow> validateField eng field errorEl = \<lparr>valid = True, reason = None\<rparr>)
        \<and> (l \<noteq> [] \<and> list_all notSpaceAt l \<and> ?v = l @ ''@acme.io'' \<longrightarrow>
             validateField eng field errorEl = \<lparr>valid = True, reason = None\<rparr>)"
    using email_accepted [OF t ne, of eng errorEl] email_check_None [of field ?v] m dm acme ad ash
    by (auto simp: ok_def)
  show "test emailPattern ?v = email_shape ?v
   \<and> (valid (validateField eng field errorEl) \<longrightarrow> email_shape ?v)
   \<and> (?flag \<and> email_domain ?v \<in> set freeDomains \<longrightarrow>
          validateField eng field errorEl = \<lparr>valid = False, reason = Some ''format''\<rparr>)
   \<and> (CHR ''@'' \<notin> set d \<longrightarrow> email_domain (l @ CHR ''@'' # d) = toLowerCase d)
   \<and> length freeDomains = 19
   \<and> (?flag \<and> ?v = l @ ''@gmail.com'' \<longrightarrow>
          validateField eng field errorEl = \<lparr>valid = False, reason = Some ''format''\<rparr>)
   \<and> (getAttribute field ''minlength'' = None \<and> getAttribute field ''maxlength'' = None
        \<and> getAttribute field ''pattern'' = None \<longrightarrow>
          (?v = ''a@b.com'' \<longrightarrow>
             validateField eng field errorEl = \<lparr>valid = True, reason = None\<rparr>)
        \<and> (l \<noteq> [] \<and> list_all notSpaceAt l \<and> ?v = l @ ''@acme.io'' \<longrightarrow>
             validateField eng field errorEl = \<lparr>valid = True, reason = None\<rparr>))"
    using c0 c1 deny c3 c4 c5 c6 by blast
qed

theorem validateField_email_witness:
  "validateField sample_engine
     (input_field [(''type'', ''email''), (''data-business-email-only'', ''true'')] ''bob@acme.io'')
     Undefined = \<lparr>valid = True, reason = None\<rparr>
   \<and> validateField sample_engine
     (input_field [(''type'', ''email''), (''data-business-email-only'', ''true'')] ''bob@gmail.com'')
     Undefined = \<lparr>valid = False, reason = Some ''format''\<rparr>
   \<and> validateField sample_engine
     (input_field [(''type'', ''email''), (''data-business-email-only'', ''true'')] ''bob@Yahoo.com'')
     Undefined = \<lparr>valid = False, reason = Some ''format''\<rparr>
   \<and> validateField sample_engine (input_field [(''type'', ''EMAIL'')] '' a@b.com '') (ElementRef 0)
       = \<lparr>valid = True, reason = None\<rparr>
   \<and> email_shape ''bob@acme.io''
   \<and> email_domain (''bob'' @ CHR ''@'' # ''Yahoo.com'') = toLowerCase ''Yahoo.com''"
proof -
  let ?a = "input_field [(''type'', ''email''), (''data-business-email-only'', ''true'')] ''bob@acme.io''"
  let ?g = "input_field [(''type'', ''email''), (''data-business-email-only'', ''true'')] ''bob@gmail.com''"
  let ?y = "input_field [(''type'', ''email''), (''data-business-email-only'', ''true'')] ''bob@Yahoo.com''"
  let ?b = "input_field [(''type'', ''EMAIL'')] '' a@b.com ''"
  have a1: "type_attr ?a = ''email'' \<and> trim (val ?a) \<noteq> []" by code_simp
  have a2: "''bob'' \<noteq> [] \<and> list_all notSpaceAt ''bob'' \<and> trim (val ?a) = ''bob'' @ ''@acme.io''"
    by code_simp
  have a3: "getAttribute ?a ''minlength'' = None \<and> getAttribute ?a ''maxlength'' = None
      \<and> getAttribute ?a ''pattern'' = None" by code_simp
  have a4: "trim (val ?a) = ''bob@acme.io''" by code_simp
  have g1: "type_attr ?g = ''email'' \<and> trim (val ?g) \<noteq> []" by code_simp
  have g2: "hasAttribute ?g ''data-business-email-only'' \<and> trim (val ?g) = ''bob'' @ ''@gmail.com''"
    by code_simp
  have y1: "type_attr ?y = ''email'' \<and> trim (val ?y) \<noteq> []" by code_simp
  have y2: "hasAttribute ?y ''data-business-email-only'' \<and> email_domain (trim (val ?y)) \<in> set freeDomains"
    by code_simp
  have b1: "type_attr ?b = ''email'' \<and> trim (val ?b) \<noteq> []" by code_simp
  have b2: "trim (val ?b) = ''a@b.com''" by code_simp
  have b3: "getAttribute ?b ''minlength'' = None \<and> getAttribute ?b ''maxlength'' = None
      \<and> getAttribute ?b ''pattern'' = None" by code_simp
  have d: "CHR ''@'' \<notin> set ''Yahoo.com''" by simp
  note ta = validateField_email [where field = ?a and eng = sample_engine and errorEl = Undefined
      and l = "''bob''" and d = "''Yahoo.com''"]
  note tg = validateField_email [where field = ?g and eng = sample_engine and errorEl = Undefined
      and l = "''bob''" and d = "''Yahoo.com''"]
  note ty = validateField_email [where field = ?y and eng = sample_engine and errorEl = Undefined
      and l = "''bob''" and d = "''Yahoo.com''"]
  note tb = validateField_email [where field = ?b and eng = sample_engine and errorEl = "ElementRef 0"
      and l = "''bob''" and d = "''Yahoo.com''"]
  have ra: "validateField sample_engine ?a Undefined = \<lparr>valid = True, reason = None\<rparr>"
    using ta a1 a2 a3 by blast
  have rg: "validateField sample_engine ?g Undefined = \<lparr>valid = False, reason = Some ''format''\<rparr>"
    using tg g1 g2 by blast
  have ry: "validateField sample_engine ?y Undefined = \<lparr>valid = False, reason = Some ''format''\<rparr>"
    using ty y1 y2 by blast
  have rb: "validateField sample_engine ?b (ElementRef 0) = \<lparr>valid = True, reason = None\<rparr>"
    using tb b1 b2 b3 by blast
  have rd: "email_domain (''bob'' @ CHR ''@'' # ''Yahoo.com'') = toLowerCase ''Yahoo.com''"
    using ta a1 d by blast
  have "valid (validateField sample_engine ?a Undefined)"
    by (simp add: ra)
  then have "email_shape (trim (val ?a))"
    using ta a1 by blast
  then have rs: "email_shape ''bob@acme.io''"
    by (simp only: a4)
  show ?thesis
    using ra rg ry rb rd rs by simp
qed

text \<open>
  Claim C8 says that a value has to match a declared pattern as a whole. The script
  applies the pattern with \<^verbatim>\<open>re.test(value)\<close>, which searches for a match anywhere in
  the value: with the pattern \<^verbatim>\<open>abc\<close>, the value \<^verbatim>\<open>xabcx\<close> does not match as a whole,
  and the verdict is valid.
\<close>

theorem validateField_pattern_searches:
  "getAttribute (input_field [(''type'', ''text''), (''pattern'', ''abc'')] ''xabcx'') ''pattern''
     = Some ''abc''
   \<and> RegExp sample_engine ''abc'' = Inr (Lit ''abc'')
   \<and> \<not> full_match (Lit ''abc'') ''xabcx''
   \<and> validateField sample_engine
        (input_field [(''type'', ''text''), (''pattern'', ''abc'')] ''xabcx'') Undefined
       = \<lparr>valid = True, reason = None\<rparr>"
proof -
  have p: "getAttribute (input_field [(''type'', ''text''), (''pattern'', ''abc'')] ''xabcx'')
      ''pattern'' = Some ''abc''"
    by code_simp
  have r: "RegExp sample_engine ''abc'' = Inr (Lit ''abc'')"
    by (simp add: sample_engine_def)
  have f: "\<not> full_match (Lit ''abc'') ''xabcx''"
    by code_simp
  have v: "validateField sample_engine
        (input_field [(''type'', ''text''), (''pattern'', ''abc'')] ''xabcx'') Undefined
       = \<lparr>valid = True, reason = None\<rparr>"
    by code_simp
  show ?thesis
    using p r f v by simp
qed

text \<open>
  The rest of claim C8 holds. A pattern that does not parse is ignored: the verdict is
  that of the field without the attribute. A pattern that parses and has no match
  anywhere in a non-empty value gives the verdict invalid, reason \<^verbatim>\<open>'format'\<close>.
\<close>

lemma pattern_unparsable_ignored:
  assumes "getAttribute field ''pattern'' = Some p" and "RegExp eng p = Inl e"
  shows "validateField eng field errorEl
         = validateField eng (field\<lparr>attrs := (attrs field)(''pattern'' := None)\<rparr>) errorEl"
proof -
  let ?g = "field\<lparr>attrs := (attrs field)(''pattern'' := None)\<rparr>"
  have t: "type_attr ?g = type_attr field"
    by (simp add: type_attr_def getAttribute_def)
  have r: "isRequired ?g errorEl = isRequired field errorEl"
    by (simp add: isRequired_def hasAttribute_def)
  have e: "email_check ?g ty v = email_check field ty v" for ty v
    by (simp add: email_check_def hasAttribute_def)
  have n: "number_check eng ?g ty v rq = number_check eng field ty v rq" for ty v rq
    by (simp add: number_check_def getAttribute_def)
  have l: "length_check eng ?g v = length_check eng field v" for v
    by (simp add: length_check_def getAttribute_def)
  have p1: "pattern_check eng field v = None" for v
    using assms by (simp add: pattern_check_def)
  have p2: "pattern_check eng ?g v = None" for v
    by (simp add: pattern_check_def getAttribute_def)
  have v: "val ?g = val field" and c: "checked ?g = checked field"
    by simp_all
  show ?thesis
    unfolding validateField_def t r e n l p1 p2 v c by (rule refl)
qed

lemma pattern_violation:
  assumes "type_attr field \<noteq> ''checkbox''" and "type_attr field \<noteq> ''radio''"
    and "trim (val field) \<noteq> []"
    and "getAttribute field ''pattern'' = Some p" and "p \<noteq> []"
    and "RegExp eng p = Inr re" and "\<not> test re (trim (val field))"
  shows "validateField eng field errorEl = format_error"
proof -
  have "pattern_check eng field (trim (val field)) = Some format_error"
    using assms by (simp add: pattern_check_def)
  then have "first_return
     [tel_check (type_attr field) (trim (val field)),
      email_check field (type_attr field) (trim (val field)),
      url_check (type_attr field) (trim (val field)),
      number_check eng field (type_attr field) (trim (val field)) (isRequired field errorEl),
      length_check eng field (trim (val field)),
      pattern_check eng field (trim (val field))] = format_error"
    using tel_check_cases [of "type_attr field" "trim (val field)"]
      email_check_cases [of field "type_attr field" "trim (val field)"]
      url_check_cases [of "type_attr field" "trim (val field)"]
      number_check_cases [OF assms(3), of eng field "type_attr field" "isRequired field errorEl"]
      length_check_cases [of eng field "trim (val field)"]
    by auto
  then show ?thesis
    using assms(1-3) by (simp add: validateField_def Let_def)
qed

section \<open>Properties of the error map\<close>

text \<open>
  What \<open>buildErrorMap\<close> builds. For every key other than \<^verbatim>\<open>constructor\<close> the map holds
  the first element with that key; the empty key and \<^verbatim>\<open>constructor\<close> have no entry.
  Every element with a non-empty key loses the class \<^verbatim>\<open>is-visible\<close>, whether the map
  keeps it or not; an element with an empty key is left as it was. The indices in the
  map are indices of elements.
\<close>

lemma find_from_Some:
  "find_from i P xs = Some k \<longleftrightarrow>
     i \<le> k \<and> k - i < length xs \<and> P (xs ! (k - i)) \<and> (\<forall>j < k - i. \<not> P (xs ! j))"
proof (induction xs arbitrary: i)
  case Nil
  then show ?case by simp
next
  case (Cons x xs)
  show ?case
  proof (cases "P x")
    case True
    have "k - i = 0" if "\<forall>j < k - i. \<not> P ((x # xs) ! j)"
      using that True by (cases "k - i") auto
    with True show ?thesis by auto
  next
    case False
    have "(Suc i \<le> k \<and> k - Suc i < length xs \<and> P (xs ! (k - Suc i)) \<and> (\<forall>j < k - Suc i. \<not> P (xs ! j)))
        \<longleftrightarrow> (i \<le> k \<and> k - i < length (x # xs) \<and> P ((x # xs) ! (k - i))
             \<and> (\<forall>j < k - i. \<not> P ((x # xs) ! j)))" (is "?L \<longleftrightarrow> ?R")
    proof
      assume l: ?L
      then have k: "k - i = Suc (k - Suc i)" by auto
      have "\<not> P ((x # xs) ! j)" if "j < k - i" for j
        using that l False k by (cases j) auto
      with l k show ?R by auto
    next
      assume r: ?R
      with False have "k - i \<noteq> 0" by (metis nth_Cons_0)
      then have k: "k - i = Suc (k - Suc i)" by auto
      have "\<not> P (xs ! j)" if "j < k - Suc i" for j
        using r k that by (metis Suc_less_eq nth_Cons_Suc)
      with r k show ?L by auto
    qed
    with False Cons.IH [of "Suc i"] show ?thesis by simp
  qed
qed

lemma find_from_None: "find_from i P xs = None \<longleftrightarrow> (\<forall>x \<in> set xs. \<not> P x)"
  by (induction xs arbitrary: i) auto

lemma buildErrorMap_loop_map:
  "fst (buildErrorMap_loop i els m) k =
     (if k = [] \<or> k = ''constructor'' then m k
      else case m k of
             Some j \<Rightarrow> Some j
           | None \<Rightarrow> find_from i (\<lambda>el. slot_key el = k) els)"
proof (induction els arbitrary: i m)
  case Nil
  then show ?case by (simp split: option.splits)
next
  case (Cons el els)
  show ?case
  proof (cases "slot_key el = []")
    case True
    then show ?thesis
      using Cons.IH [of "Suc i" m]
      by (auto simp: slot_key_def split: prod.splits option.splits)
  next
    case False
    let ?m1 = "if \<not> truthy (get_property m (slot_key el)) then m(slot_key el \<mapsto> i) else m"
    have step: "fst (buildErrorMap_loop i (el # els) m) k = fst (buildErrorMap_loop (Suc i) els ?m1) k"
      using False by (simp add: slot_key_def Let_def split: prod.splits)
    have m1: "?m1 k = (if k = slot_key el \<and> k \<noteq> ''constructor'' \<and> m k = None then Some i else m k)"
      by (auto simp: get_property_def split: option.splits)
    show ?thesis
      unfolding step Cons.IH [of "Suc i" ?m1] m1
      using False by (auto split: option.splits)
  qed
qed

lemma buildErrorMap_first_wins:
  "fst (buildErrorMap els) k =
     (if k = [] \<or> k = ''constructor'' then None
      else find_from 0 (\<lambda>el. slot_key el = k) els)"
  by (simp add: buildErrorMap_def buildErrorMap_loop_map)

lemma buildErrorMap_loop_elements:
  "snd (buildErrorMap_loop i els m) =
     map (\<lambda>el. if slot_key el = [] then el
               else el\<lparr>classList := classList el - {''is-visible''}\<rparr>) els"
  by (induction els arbitrary: i m) (simp_all add: slot_key_def Let_def case_prod_unfold)

lemma buildErrorMap_elements:
  "snd (buildErrorMap els) =
     map (\<lambda>el. if slot_key el = [] then el
               else el\<lparr>classList := classList el - {''is-visible''}\<rparr>) els"
  by (simp add: buildErrorMap_def buildErrorMap_loop_elements)

lemma buildErrorMap_in_range:
  "fst (buildErrorMap els) k = Some j \<Longrightarrow> j < length (snd (buildErrorMap els))"
  by (auto simp: buildErrorMap_first_wins buildErrorMap_elements find_from_Some split: if_splits)

lemma setupForm_slot_in_range:
  "slot_in_range (fst (setupForm d)) (snd (setupForm d)) field"
  using buildErrorMap_in_range [of "errorEls d"]
  by (auto simp: slot_in_range_def setupForm_def errorElFor_def get_property_def
      split: prod.splits js_ref.splits option.splits if_splits)

text \<open>
  Claim C5 says that of the slots with one normalised key the map keeps the first. For
  the key \<^verbatim>\<open>constructor\<close> it keeps none: \<^verbatim>\<open>map[key]\<close> is the inherited function
  \<^verbatim>\<open>Object\<close>, so line 41 finds the key taken and line 42 never runs. For another key,
  such as \<^verbatim>\<open>email\<close>, the first slot is kept (\<open>buildErrorMap_first_wins\<close>).
\<close>

theorem buildErrorMap_constructor_key:
  "normalizeKey (Some ''Constructor'') = ''constructor''
   \<and> fst (buildErrorMap [error_slot ''Constructor'' ''Required'' {},
                           error_slot ''constructor'' ''Required'' {}]) ''constructor'' = None
   \<and> get_property (fst (buildErrorMap [error_slot ''Constructor'' ''Required'' {},
                           error_slot ''constructor'' ''Required'' {}])) ''constructor''
       = ObjectConstructor
   \<and> fst (buildErrorMap [error_slot ''E-mail'' ''Required'' {},
                           error_slot ''email'' ''Required'' {}]) ''email'' = Some 0"
  by code_simp

text \<open>
  Claim C6 says that every discovered slot is hidden. A slot whose normalised key is
  empty leaves the callback at line 39, before line 45 removes \<^verbatim>\<open>is-visible\<close>: it
  stays visible. A slot with a key is hidden (\<open>buildErrorMap_elements\<close>).
\<close>

theorem buildErrorMap_keyless_slot_stays_visible:
  "normalizeKey (getAttribute (error_slot ''!'' ''Required'' {''is-visible''}) ''data-error-text'') = []
   \<and> ''is-visible'' \<in> classList (snd (buildErrorMap [error_slot ''!'' ''Required'' {''is-visible''}]) ! 0)
   \<and> ''is-visible'' \<notin> classList (snd (buildErrorMap [error_slot ''a'' ''Required'' {''is-visible''}]) ! 0)"
  by code_simp

section \<open>Properties of the presenter\<close>

text \<open>
  What holds of the default message for a slot that starts with a non-empty text and no
  attribute \<^verbatim>\<open>data-default-message\<close>: the first presentation captures the text, every
  later one keeps it, and a presentation that clears the error restores it.
\<close>

lemma is_invalid_set_invalid [simp]: "is_invalid (set_invalid b f) = b"
  by (simp add: is_invalid_def set_invalid_def)

lemma present_visible [simp]:
  "(''is-visible'' \<in> classList (present field el b rsn)) = b"
  by (simp add: present_def Let_def)

lemma present_first_capture:
  "\<not> truthyString (getAttribute el ''data-default-message'') \<Longrightarrow>
   getAttribute (present field el b rsn) ''data-default-message'' = Some (textContent el)"
  by (simp add: present_def Let_def getAttribute_def)

lemma present_keeps_capture:
  assumes "getAttribute el ''data-default-message'' = Some m" and "m \<noteq> []"
  shows "getAttribute (present field el b rsn) ''data-default-message'' = Some m"
    and "textContent (present field el False rsn) = m"
  using assms by (simp_all add: present_def Let_def getAttribute_def truthyString_def orEmpty_def)

lemma fold_present_keeps_capture:
  assumes "getAttribute el ''data-default-message'' = Some m" and "m \<noteq> []"
  shows "getAttribute (fold (\<lambda>(f, b, r) e. present f e b r) ps el) ''data-default-message'' = Some m"
  using assms
  by (induction ps arbitrary: el) (auto simp: present_keeps_capture)

lemma default_message_restored:
  assumes "getAttribute el ''data-default-message'' = None" and "textContent el \<noteq> []"
  shows "textContent (present f' (fold (\<lambda>(f, b, r) e. present f e b r) ((f0, b0, r0) # ps) el) False r')
         = textContent el"
proof -
  have "getAttribute (present f0 el b0 r0) ''data-default-message'' = Some (textContent el)"
    using assms(1) by (simp add: present_first_capture truthyString_def)
  then have "getAttribute (fold (\<lambda>(f, b, r) e. present f e b r) ((f0, b0, r0) # ps) el)
      ''data-default-message'' = Some (textContent el)"
    using assms(2) by (simp add: fold_present_keeps_capture)
  then show ?thesis
    using assms(2) by (rule present_keeps_capture(2))
qed

text \<open>
  Claim C9 says that the default message is captured once and restored whenever the
  error is cleared. Line 69 takes an empty captured message for none: a slot whose text
  is empty shows the override for a format error, and the next presentation captures
  that override as the default, so clearing the error leaves the override in place. A
  slot that starts with a non-empty text behaves as claimed
  (\<open>default_message_restored\<close>).
\<close>

theorem setFieldErrorState_empty_default:
  "(let d0 = new_form [input_field [(''name'', ''email''), (''type'', ''email''),
                                    (''data-second-error'', ''Invalid email'')] ''abc'']
                      [error_slot ''email'' [] {}]
    in case setFieldErrorState d0 0 (ElementRef 0) True (Some ''format'') of
         Inl e \<Rightarrow> False
       | Inr d1 \<Rightarrow>
           textContent (errorEls d1 ! 0) = ''Invalid email''
           \<and> getAttribute (errorEls d1 ! 0) ''data-default-message'' = Some []
           \<and> (case setFieldErrorState d1 0 (ElementRef 0) False None of
                 Inl e \<Rightarrow> False
               | Inr d2 \<Rightarrow>
                   textContent (errorEls d2 ! 0) = ''Invalid email''
                   \<and> getAttribute (errorEls d2 ! 0) ''data-default-message'' = Some ''Invalid email''
                   \<and> textContent (errorEls d0 ! 0) = []))"
  by code_simp

section \<open>Properties of the controller\<close>

lemma hasErrorToShow_checkbox:
  "(type_attr field = ''checkbox'' \<or> type_attr field = ''radio'') \<Longrightarrow> ctx \<noteq> Submit \<Longrightarrow>
   \<not> hasErrorToShow field ctx result"
  by (simp add: hasErrorToShow_def)

lemma hasErrorToShow_empty:
  "ctx = Input \<or> ctx = Blur \<or> ctx = Change \<Longrightarrow> trim (val field) = [] \<Longrightarrow>
   \<not> hasErrorToShow field ctx result"
  by (auto simp: hasErrorToShow_def)

lemma hasErrorToShow_submit: "hasErrorToShow field Submit result = (\<not> valid result)"
  by (simp add: hasErrorToShow_def)

lemma handleField_result:
  assumes "i < length (form_fields d)" and "slot_in_range errorMap d (form_fields d ! i)"
  shows "case handleField eng errorMap d i ctx of
           Inl (e, d') \<Rightarrow>
             errorElFor errorMap (form_fields d ! i) = ObjectConstructor \<and> e = TypeError
             \<and> is_invalid (form_fields d' ! i) = is_invalid (form_fields d ! i)
         | Inr (d', v) \<Rightarrow>
             errorElFor errorMap (form_fields d ! i) \<noteq> ObjectConstructor
             \<and> v = valid (validateField eng (form_fields d ! i) (errorElFor errorMap (form_fields d ! i)))
             \<and> is_invalid (form_fields d' ! i)
                 = hasErrorToShow (form_fields d ! i) ctx
                     (validateField eng (form_fields d ! i) (errorElFor errorMap (form_fields d ! i)))
             \<and> (case errorElFor errorMap (form_fields d ! i) of
                   ElementRef j \<Rightarrow>
                     (''is-visible'' \<in> classList (errorEls d' ! j))
                       = hasErrorToShow (form_fields d ! i) ctx
                           (validateField eng (form_fields d ! i)
                              (errorElFor errorMap (form_fields d ! i)))
                 | other \<Rightarrow> True)"
  using assms
  by (cases "errorElFor errorMap (form_fields d ! i)")
    (simp_all add: handleField_def setFieldErrorState_def Let_def slot_in_range_def)

text \<open>
  Claim C3. For a checkbox or radio button in a context other than \<^verbatim>\<open>submit\<close>, the
  value that \<open>handleField\<close> passes on as \<^verbatim>\<open>hasErrorToShow\<close> is false whatever the
  verdict, an invalid one included. In the contexts \<^verbatim>\<open>input\<close>, \<^verbatim>\<open>blur\<close> and \<^verbatim>\<open>change\<close>
  it is false for a field whose trimmed value is empty, while the verdict of a required
  generic field with an empty value stays invalid, reason \<^verbatim>\<open>'required'\<close>. When
  \<open>handleField\<close> returns, it returns the validity of that verdict, the field is marked
  invalid exactly when \<^verbatim>\<open>hasErrorToShow\<close> is true, and so is the visibility of the
  field's error element; it throws only when the error element is the inherited
  \<^verbatim>\<open>Object\<close>, and then the field's mark is as before.
\<close>

theorem handleField_suppression:
  "((type_attr field = ''checkbox'' \<or> type_attr field = ''radio'') \<and> ctx \<noteq> Submit \<longrightarrow>
      \<not> hasErrorToShow field ctx result)
   \<and> ((ctx = Input \<or> ctx = Blur \<or> ctx = Change) \<and> trim (val field) = [] \<longrightarrow>
      \<not> hasErrorToShow field ctx result)
   \<and> (type_attr field \<noteq> ''checkbox'' \<and> type_attr field \<noteq> ''radio'' \<and> trim (val field) = []
       \<and> isRequired field errorEl \<longrightarrow>
      validateField eng field errorEl = \<lparr>valid = False, reason = Some ''required''\<rparr>)
   \<and> (i < length (form_fields d) \<and> slot_in_range errorMap d (form_fields d ! i) \<longrightarrow>
      (case handleField eng errorMap d i ctx of
         Inl (e, d') \<Rightarrow>
           errorElFor errorMap (form_fields d ! i) = ObjectConstructor \<and> e = TypeError
           \<and> is_invalid (form_fields d' ! i) = is_invalid (form_fields d ! i)
       | Inr (d', v) \<Rightarrow>
           errorElFor errorMap (form_fields d ! i) \<noteq> ObjectConstructor
           \<and> v = valid (validateField eng (form_fields d ! i) (errorElFor errorMap (form_fields d ! i)))
           \<and> is_invalid (form_fields d' ! i)
               = hasErrorToShow (form_fields d ! i) ctx
                   (validateField eng (form_fields d ! i) (errorElFor errorMap (form_fields d ! i)))
           \<and> (case errorElFor errorMap (form_fields d ! i) of
                 ElementRef j \<Rightarrow>
                   (''is-visible'' \<in> classList (errorEls d' ! j))
                     = hasErrorToShow (form_fields d ! i) ctx
                         (validateField eng (form_fields d ! i)
                            (errorElFor errorMap (form_fields d ! i)))
               | other \<Rightarrow> True)))"
proof -
  have req: "type_attr field \<noteq> ''checkbox'' \<and> type_attr field \<noteq> ''radio'' \<and> trim (val field) = []
       \<and> isRequired field errorEl \<longrightarrow>
      validateField eng field errorEl = \<lparr>valid = False, reason = Some ''required''\<rparr>"
    by (simp add: validateField_def Let_def required_error_def)
  show ?thesis
    using hasErrorToShow_checkbox [of field ctx result] hasErrorToShow_empty [of ctx field result]
      req handleField_result [of i d errorMap eng ctx]
    by blast
qed

theorem handleField_suppression_witness:
  "type_attr (form_fields consent_form ! 1) = ''checkbox''
   \<and> validateField sample_engine (form_fields consent_form ! 1) (ElementRef 1)
       = \<lparr>valid = False, reason = Some ''required''\<rparr>
   \<and> \<not> hasErrorToShow (form_fields consent_form ! 1) Change
         (validateField sample_engine (form_fields consent_form ! 1) (ElementRef 1))
   \<and> trim (val (form_fields consent_form ! 0)) = []
   \<and> isRequired (form_fields consent_form ! 0) (ElementRef 0)
   \<and> validateField sample_engine (form_fields consent_form ! 0) (ElementRef 0)
       = \<lparr>valid = False, reason = Some ''required''\<rparr>
   \<and> \<not> hasErrorToShow (form_fields consent_form ! 0) Blur
         (validateField sample_engine (form_fields consent_form ! 0) (ElementRef 0))
   \<and> (case handleField sample_engine (fst (setupForm consent_form)) (snd (setupForm consent_form))
              1 Change of
         Inl x \<Rightarrow> False
       | Inr (d', v) \<Rightarrow>
           \<not> v \<and> \<not> is_invalid (form_fields d' ! 1) \<and> ''is-visible'' \<notin> classList (errorEls d' ! 1))
   \<and> (case handleField sample_engine (fst (setupForm consent_form)) (snd (setupForm consent_form))
              1 Submit of
         Inl x \<Rightarrow> False
       | Inr (d', v) \<Rightarrow>
           \<not> v \<and> is_invalid (form_fields d' ! 1) \<and> ''is-visible'' \<in> classList (errorEls d' ! 1))"
proof -
  let ?m = "fst (setupForm consent_form)"
  let ?d = "snd (setupForm consent_form)"
  let ?c = "form_fields consent_form ! 1"
  let ?t = "form_fields consent_form ! 0"
  have c1: "type_attr ?c = ''checkbox''" by code_simp
  have c2: "validateField sample_engine ?c (ElementRef 1)
      = \<lparr>valid = False, reason = Some ''required''\<rparr>" by code_simp
  have t1: "type_attr ?t \<noteq> ''checkbox'' \<and> type_attr ?t \<noteq> ''radio'' \<and> trim (val ?t) = []
      \<and> isRequired ?t (ElementRef 0)" by code_simp
  have w: "1 < length (form_fields ?d) \<and> slot_in_range ?m ?d (form_fields ?d ! 1)" by code_simp
  have e: "errorElFor ?m (form_fields ?d ! 1) = ElementRef 1" by code_simp
  have f: "form_fields ?d ! 1 = ?c" by (simp add: setupForm_def split: prod.splits)
  note C = handleField_suppression [where field = ?c and ctx = Change and eng = sample_engine
      and result = "validateField sample_engine ?c (ElementRef 1)" and errorEl = "ElementRef 1"
      and i = 1 and d = ?d and errorMap = ?m]
  note S = handleField_suppression [where field = ?c and ctx = Submit and eng = sample_engine
      and result = "validateField sample_engine ?c (ElementRef 1)" and errorEl = "ElementRef 1"
      and i = 1 and d = ?d and errorMap = ?m]
  note T = handleField_suppression [where field = ?t and ctx = Blur and eng = sample_engine
      and result = "validateField sample_engine ?t (ElementRef 0)" and errorEl = "ElementRef 0"
      and i = 1 and d = ?d and errorMap = ?m]
  have r1: "\<not> hasErrorToShow ?c Change (validateField sample_engine ?c (ElementRef 1))"
    using C c1 by blast
  have r2: "validateField sample_engine ?t (ElementRef 0) = \<lparr>valid = False, reason = Some ''required''\<rparr>"
    using T t1 by blast
  have r3: "\<not> hasErrorToShow ?t Blur (validateField sample_engine ?t (ElementRef 0))"
    using T t1 by blast
  have r4: "case handleField sample_engine ?m ?d 1 Change of
         Inl x \<Rightarrow> False
       | Inr (d', v) \<Rightarrow>
           \<not> v \<and> \<not> is_invalid (form_fields d' ! 1) \<and> ''is-visible'' \<notin> classList (errorEls d' ! 1)"
    using C w e f c2 r1 by (auto split: sum.splits prod.splits)
  have s1: "hasErrorToShow ?c Submit (validateField sample_engine ?c (ElementRef 1))"
    unfolding hasErrorToShow_submit c2 by simp
  have r5: "case handleField sample_engine ?m ?d 1 Submit of
         Inl x \<Rightarrow> False
       | Inr (d', v) \<Rightarrow>
           \<not> v \<and> is_invalid (form_fields d' ! 1) \<and> ''is-visible'' \<in> classList (errorEls d' ! 1)"
    using S w e f c2 s1 by (auto split: sum.splits prod.splits)
  show ?thesis
    using c1 c2 t1 r1 r2 r3 r4 r5 by simp
qed

text \<open>
  After setup, the argument \<^verbatim>\<open>errorEl\<close> that line 276 passes on is truthy exactly when a
  matching error slot exists or the field's key is \<^verbatim>\<open>constructor\<close>. So for every other
  key a field is required exactly when it has the attribute \<^verbatim>\<open>required\<close> or a matching
  error slot exists.
\<close>

lemma errorElFor_after_setup:
  "truthy (errorElFor (fst (setupForm d)) field) \<longleftrightarrow>
     getFieldKey field = ''constructor'' \<or> matching_slot_exists (errorEls d) field"
proof -
  have m: "fst (setupForm d) = fst (buildErrorMap (errorEls d))"
    by (simp add: setupForm_def split: prod.splits)
  have c: "''constructor'' \<noteq> []" by simp
  show ?thesis
  proof (cases "getFieldKey field = [] \<or> getFieldKey field = ''constructor''")
    case True
    then show ?thesis
      unfolding m
      by (auto simp: errorElFor_def get_property_def matching_slot_exists_def
          buildErrorMap_first_wins)
  next
    case False
    then have "fst (buildErrorMap (errorEls d)) (getFieldKey field)
        = find_from 0 (\<lambda>el. slot_key el = getFieldKey field) (errorEls d)"
      by (simp add: buildErrorMap_first_wins)
    moreover have "find_from 0 (\<lambda>el. slot_key el = getFieldKey field) (errorEls d) \<noteq> None
        \<longleftrightarrow> list_ex (\<lambda>el. slot_key el = getFieldKey field) (errorEls d)"
      by (simp add: find_from_None list_ex_iff)
    ultimately show ?thesis
      using False unfolding m
      by (auto simp: errorElFor_def get_property_def matching_slot_exists_def
          split: option.splits)
  qed
qed

lemma isRequired_after_setup:
  assumes "getFieldKey field \<noteq> ''constructor''"
  shows "isRequired field (errorElFor (fst (setupForm d)) field) \<longleftrightarrow>
           hasAttribute field ''required'' \<or> matching_slot_exists (errorEls d) field"
  using assms by (simp add: isRequired_def errorElFor_after_setup)

text \<open>
  Claim C1 says that a field is treated as required only if it has the attribute
  \<^verbatim>\<open>required\<close> or a matching error slot exists. A field whose key is \<^verbatim>\<open>constructor\<close>,
  in a form with no error slot at all and without the attribute, gets the inherited
  function \<^verbatim>\<open>Object\<close> as \<^verbatim>\<open>errorEl\<close>: it is treated as required, and with an empty
  value its verdict is invalid, reason \<^verbatim>\<open>'required'\<close>. The rest of the claim holds: a
  required generic field with an empty trimmed value has that verdict
  (\<open>validateField_required\<close>), and for every other key requiredness is as claimed
  (\<open>isRequired_after_setup\<close>).
\<close>

theorem validateField_constructor_key_required:
  "(case setupForm (new_form [input_field [(''name'', ''constructor'')] []] []) of
      (errorMap, d) \<Rightarrow>
        errorEls d = []
        \<and> \<not> matching_slot_exists (errorEls d) (form_fields d ! 0)
        \<and> \<not> hasAttribute (form_fields d ! 0) ''required''
        \<and> type_attr (form_fields d ! 0) \<noteq> ''checkbox''
        \<and> type_attr (form_fields d ! 0) \<noteq> ''radio''
        \<and> trim (val (form_fields d ! 0)) = []
        \<and> errorElFor errorMap (form_fields d ! 0) = ObjectConstructor
        \<and> truthy (errorElFor errorMap (form_fields d ! 0))
        \<and> validateField sample_engine (form_fields d ! 0) (errorElFor errorMap (form_fields d ! 0))
            = \<lparr>valid = False, reason = Some ''required''\<rparr>)"
  by code_simp

text \<open>
  What a submit does when no validated field has the key \<^verbatim>\<open>constructor\<close>: the listener
  returns, every field that is not a button is marked according to its verdict, and
  either all verdicts are valid and the event and the focus are untouched, so that the
  submit proceeds, or the default is prevented, the propagation stopped and the focus
  moved to the first field marked invalid.
\<close>

lemma handleField_submit:
  assumes "i < length (form_fields d)" and "slot_in_range errorMap d (form_fields d ! i)"
    and "errorElFor errorMap (form_fields d ! i) \<noteq> ObjectConstructor"
  shows "\<exists>d'. handleField eng errorMap d i Submit
                 = Inr (d', valid (verdict_of eng errorMap (form_fields d ! i)))
           \<and> form_fields d'
               = (form_fields d)[i := set_invalid (\<not> valid (verdict_of eng errorMap (form_fields d ! i)))
                                        (form_fields d ! i)]
           \<and> length (errorEls d') = length (errorEls d)
           \<and> focused d' = focused d"
  using assms
  by (cases "errorElFor errorMap (form_fields d ! i)")
    (simp_all add: handleField_def setFieldErrorState_def Let_def verdict_of_def
      hasErrorToShow_submit)

lemma slot_in_range_cong:
  "length (errorEls d') = length (errorEls d) \<Longrightarrow>
   slot_in_range errorMap d' field = slot_in_range errorMap d field"
  by (simp add: slot_in_range_def split: js_ref.splits)

lemma validateForm_loop_result:
  assumes "distinct idx"
    and "\<forall>i \<in> set idx. i < length (form_fields d) \<and> slot_in_range errorMap d (form_fields d ! i)
           \<and> (\<not> is_button (form_fields d ! i) \<longrightarrow>
                errorElFor errorMap (form_fields d ! i) \<noteq> ObjectConstructor)"
  shows "\<exists>d'. validateForm_loop eng errorMap idx d a
                 = Inr (d', a \<and> (\<forall>i \<in> set idx. is_button (form_fields d ! i)
                                      \<or> valid (verdict_of eng errorMap (form_fields d ! i))))
           \<and> length (form_fields d') = length (form_fields d)
           \<and> (\<forall>k < length (form_fields d). form_fields d' ! k
                  = (if k \<in> set idx then marked eng errorMap (form_fields d ! k)
                     else form_fields d ! k))
           \<and> focused d' = focused d"
  using assms
proof (induction idx arbitrary: d a)
  case Nil
  then show ?case by simp
next
  case (Cons i idx)
  let ?f = "form_fields d ! i"
  have i: "i < length (form_fields d)" and r: "slot_in_range errorMap d ?f"
    and c: "\<not> is_button ?f \<longrightarrow> errorElFor errorMap ?f \<noteq> ObjectConstructor"
    and ni: "i \<notin> set idx" and di: "distinct idx"
    using Cons.prems by auto
  show ?case
  proof (cases "is_button ?f")
    case True
    have pre: "\<forall>j \<in> set idx. j < length (form_fields d) \<and> slot_in_range errorMap d (form_fields d ! j)
           \<and> (\<not> is_button (form_fields d ! j) \<longrightarrow>
                errorElFor errorMap (form_fields d ! j) \<noteq> ObjectConstructor)"
      using Cons.prems(2) by simp
    from Cons.IH [OF di pre, of a] obtain d' where
      l: "validateForm_loop eng errorMap idx d a
            = Inr (d', a \<and> (\<forall>i \<in> set idx. is_button (form_fields d ! i)
                                      \<or> valid (verdict_of eng errorMap (form_fields d ! i))))"
      and n: "length (form_fields d') = length (form_fields d)"
      and k: "\<forall>k < length (form_fields d). form_fields d' ! k
                  = (if k \<in> set idx then marked eng errorMap (form_fields d ! k)
                     else form_fields d ! k)"
      and fo: "focused d' = focused d"
      by blast
    have "validateForm_loop eng errorMap (i # idx) d a
          = Inr (d', a \<and> (\<forall>j \<in> set (i # idx). is_button (form_fields d ! j)
                                      \<or> valid (verdict_of eng errorMap (form_fields d ! j))))"
      using True l by (auto simp: is_button_def)
    moreover have "\<forall>k < length (form_fields d). form_fields d' ! k
                  = (if k \<in> set (i # idx) then marked eng errorMap (form_fields d ! k)
                     else form_fields d ! k)"
      using k True ni by (auto simp: marked_def)
    ultimately show ?thesis
      using n fo by blast
  next
    case False
    let ?v = "valid (verdict_of eng errorMap ?f)"
    from handleField_submit [OF i r, of eng] c False obtain d1 where
      h: "handleField eng errorMap d i Submit = Inr (d1, ?v)"
      and f1: "form_fields d1 = (form_fields d)[i := set_invalid (\<not> ?v) ?f]"
      and e1: "length (errorEls d1) = length (errorEls d)"
      and fo1: "focused d1 = focused d"
      by blast
    have same: "form_fields d1 ! j = form_fields d ! j" if "j \<in> set idx" for j
      using that ni f1 by (metis nth_list_update_neq)
    have pre: "\<forall>j \<in> set idx. j < length (form_fields d1)
           \<and> slot_in_range errorMap d1 (form_fields d1 ! j)
           \<and> (\<not> is_button (form_fields d1 ! j) \<longrightarrow>
                errorElFor errorMap (form_fields d1 ! j) \<noteq> ObjectConstructor)"
      using Cons.prems(2) same f1 slot_in_range_cong [OF e1] by simp
    from Cons.IH [OF di pre, of "if \<not> ?v then False else a"] obtain d' where
      l: "validateForm_loop eng errorMap idx d1 (if \<not> ?v then False else a)
            = Inr (d', (if \<not> ?v then False else a)
                       \<and> (\<forall>j \<in> set idx. is_button (form_fields d1 ! j)
                                      \<or> valid (verdict_of eng errorMap (form_fields d1 ! j))))"
      and n: "length (form_fields d') = length (form_fields d1)"
      and k: "\<forall>k < length (form_fields d1). form_fields d' ! k
                  = (if k \<in> set idx then marked eng errorMap (form_fields d1 ! k)
                     else form_fields d1 ! k)"
      and fo: "focused d' = focused d1"
      by blast
    have "validateForm_loop eng errorMap (i # idx) d a
          = Inr (d', a \<and> (\<forall>j \<in> set (i # idx). is_button (form_fields d ! j)
                                      \<or> valid (verdict_of eng errorMap (form_fields d ! j))))"
      using False h l same by (auto simp: is_button_def)
    moreover have "form_fields d' ! k
                  = (if k \<in> set (i # idx) then marked eng errorMap (form_fields d ! k)
                     else form_fields d ! k)" if "k < length (form_fields d)" for k
    proof (cases "k = i")
      case True
      then show ?thesis
        using k f1 i ni False by (simp add: marked_def)
    next
      case False
      then show ?thesis
        using k f1 that by simp
    qed
    ultimately show ?thesis
      using n f1 fo fo1 by auto
  qed
qed

lemma submit_listener_result:
  assumes "\<forall>i < length (form_fields d). slot_in_range errorMap d (form_fields d ! i)
           \<and> (\<not> is_button (form_fields d ! i) \<longrightarrow>
                errorElFor errorMap (form_fields d ! i) \<noteq> ObjectConstructor)"
  shows "\<exists>d' ev'. submit_listener eng errorMap d ev = Inr (d', ev')
      \<and> length (form_fields d') = length (form_fields d)
      \<and> (\<forall>k < length (form_fields d). form_fields d' ! k = marked eng errorMap (form_fields d ! k))
      \<and> (if \<forall>i < length (form_fields d). is_button (form_fields d ! i)
                \<or> valid (verdict_of eng errorMap (form_fields d ! i))
         then ev' = ev \<and> focused d' = focused d
         else defaultPrevented ev' \<and> propagationStopped ev'
              \<and> (\<exists>k < length (form_fields d). focused d' = Some k
                     \<and> is_invalid (form_fields d' ! k)
                     \<and> (\<forall>j < k. \<not> is_invalid (form_fields d' ! j))))"
proof -
  let ?n = "length (form_fields d)"
  let ?all = "\<forall>i < ?n. is_button (form_fields d ! i) \<or> valid (verdict_of eng errorMap (form_fields d ! i))"
  have pre: "\<forall>i \<in> set [0..<?n]. i < length (form_fields d) \<and> slot_in_range errorMap d (form_fields d ! i)
           \<and> (\<not> is_button (form_fields d ! i) \<longrightarrow>
                errorElFor errorMap (form_fields d ! i) \<noteq> ObjectConstructor)"
    using assms by simp
  have eq: "(True \<and> (\<forall>i \<in> set [0..<?n]. is_button (form_fields d ! i)
                 \<or> valid (verdict_of eng errorMap (form_fields d ! i)))) = ?all"
    by auto
  from validateForm_loop_result [OF distinct_upt pre, of eng True] obtain d1 where
    l: "validateForm eng errorMap d = Inr (d1, ?all)"
    and n: "length (form_fields d1) = ?n"
    and k: "\<forall>k < ?n. form_fields d1 ! k = marked eng errorMap (form_fields d ! k)"
    and fo: "focused d1 = focused d"
    unfolding eq validateForm_def by auto
  show ?thesis
  proof (cases ?all)
    case True
    then have "submit_listener eng errorMap d ev = Inr (d1, ev)"
      using l by (simp add: submit_listener_def)
    then show ?thesis
      using True n k fo by auto
  next
    case False
    then obtain i where i: "i < ?n" "\<not> is_button (form_fields d ! i)"
      "\<not> valid (verdict_of eng errorMap (form_fields d ! i))"
      by blast
    then have "is_invalid (form_fields d1 ! i)"
      using k by (simp add: marked_def)
    then have "find_from 0 is_invalid (form_fields d1) \<noteq> None"
      using i(1) n by (auto simp: find_from_None)
    then obtain m where m: "find_from 0 is_invalid (form_fields d1) = Some m"
      by blast
    then have mp: "m < ?n" "is_invalid (form_fields d1 ! m)" "\<forall>j < m. \<not> is_invalid (form_fields d1 ! j)"
      using n by (simp_all add: find_from_Some)
    have "submit_listener eng errorMap d ev
          = Inr (d1\<lparr>focused := Some m\<rparr>, ev\<lparr>defaultPrevented := True, propagationStopped := True\<rparr>)"
      using l False m by (simp add: submit_listener_def)
    then show ?thesis
      using False n k mp by auto
  qed
qed

lemma submit_listener_after_setup:
  assumes "setupForm d0 = (errorMap, d)"
    and "\<forall>field \<in> set (form_fields d0). is_button field \<or> getFieldKey field \<noteq> ''constructor''"
  shows "\<exists>d' ev'. submit_listener eng errorMap d ev = Inr (d', ev')
      \<and> length (form_fields d') = length (form_fields d0)
      \<and> (\<forall>k < length (form_fields d0). form_fields d' ! k = marked eng errorMap (form_fields d0 ! k))
      \<and> (if \<forall>i < length (form_fields d0). is_button (form_fields d0 ! i)
                \<or> valid (verdict_of eng errorMap (form_fields d0 ! i))
         then ev' = ev \<and> focused d' = focused d0
              \<and> submit_proceeds (submit_listener eng errorMap d ev) = (\<not> defaultPrevented ev)
         else defaultPrevented ev' \<and> propagationStopped ev'
              \<and> \<not> submit_proceeds (submit_listener eng errorMap d ev)
              \<and> (\<exists>k < length (form_fields d0). focused d' = Some k
                     \<and> is_invalid (form_fields d' ! k)
                     \<and> (\<forall>j < k. \<not> is_invalid (form_fields d' ! j))))"
proof -
  have f: "form_fields d = form_fields d0" and fo: "focused d = focused d0"
    using assms(1) by (auto simp: setupForm_def split: prod.splits)
  have m: "errorMap = fst (setupForm d0)" and d: "d = snd (setupForm d0)"
    using assms(1) by simp_all
  have nc: "errorElFor errorMap field \<noteq> ObjectConstructor" if "getFieldKey field \<noteq> ''constructor''"
    for field
    using that by (auto simp: errorElFor_def get_property_def split: option.splits)
  have pre: "\<forall>i < length (form_fields d). slot_in_range errorMap d (form_fields d ! i)
           \<and> (\<not> is_button (form_fields d ! i) \<longrightarrow>
                errorElFor errorMap (form_fields d ! i) \<noteq> ObjectConstructor)"
    using assms(2) nc setupForm_slot_in_range [of d0] unfolding m d f
    by (metis f d nth_mem)
  from submit_listener_result [OF pre, of eng ev] obtain d' ev' where
    r: "submit_listener eng errorMap d ev = Inr (d', ev')"
    and n: "length (form_fields d') = length (form_fields d0)"
    and k: "\<forall>k < length (form_fields d0). form_fields d' ! k = marked eng errorMap (form_fields d0 ! k)"
    and c: "if \<forall>i < length (form_fields d0). is_button (form_fields d0 ! i)
                \<or> valid (verdict_of eng errorMap (form_fields d0 ! i))
         then ev' = ev \<and> focused d' = focused d0
         else defaultPrevented ev' \<and> propagationStopped ev'
              \<and> (\<exists>k < length (form_fields d0). focused d' = Some k
                     \<and> is_invalid (form_fields d' ! k)
                     \<and> (\<forall>j < k. \<not> is_invalid (form_fields d' ! j)))"
    unfolding f fo by blast
  have p: "submit_proceeds (submit_listener eng errorMap d ev) = (\<not> defaultPrevented ev')"
    by (simp add: r submit_proceeds_def)
  show ?thesis
    unfolding p using r n k c by (cases "\<forall>i < length (form_fields d0). is_button (form_fields d0 ! i)
                \<or> valid (verdict_of eng errorMap (form_fields d0 ! i))") auto
qed

text \<open>
  On the example form, with the e-mail field empty and the checkbox not checked, the
  submit is cancelled, both fields are marked, the focus goes to the first and its
  slot shows its default message; with both filled in, the submit proceeds.
\<close>

lemma submit_listener_example:
  "(case setupForm consent_form of
      (errorMap, d) \<Rightarrow>
        (case submit_listener sample_engine errorMap d new_event of
           Inl x \<Rightarrow> False
         | Inr (d', ev) \<Rightarrow>
             defaultPrevented ev \<and> propagationStopped ev \<and> focused d' = Some 0
             \<and> is_invalid (form_fields d' ! 0) \<and> is_invalid (form_fields d' ! 1)
             \<and> ''is-visible'' \<in> classList (errorEls d' ! 0)
             \<and> textContent (errorEls d' ! 0) = ''Email is required''
             \<and> \<not> submit_proceeds (submit_listener sample_engine errorMap d new_event)))"
  "(case setupForm consent_form of
      (errorMap, d) \<Rightarrow>
        (case submit_listener sample_engine errorMap
                (d\<lparr>form_fields := [(form_fields d ! 0)\<lparr>val := ''a@b.com''\<rparr>,
                                    (form_fields d ! 1)\<lparr>checked := True\<rparr>]\<rparr>) new_event of
           Inl x \<Rightarrow> False
         | Inr (d', ev) \<Rightarrow>
             \<not> defaultPrevented ev \<and> \<not> propagationStopped ev \<and> focused d' = None
             \<and> \<not> is_invalid (form_fields d' ! 0) \<and> \<not> is_invalid (form_fields d' ! 1)
             \<and> ''is-visible'' \<notin> classList (errorEls d' ! 0)))"
  by code_simp+

text \<open>
  Claim C2 says that a submit with an invalid field is cancelled. A field whose key is
  \<^verbatim>\<open>constructor\<close> gets the function \<^verbatim>\<open>Object\<close> as its error element, which makes it
  required, and \<open>setFieldErrorState\<close> throws: the listener ends before
  \<^verbatim>\<open>preventDefault\<close>, the submit proceeds, nothing is marked and nothing gets the focus.
  Without such a field the submit goes as claimed (\<open>submit_listener_after_setup\<close>).
\<close>

theorem submit_listener_constructor_key:
  "(case setupForm (new_form [input_field [(''name'', ''constructor'')] []] []) of
      (errorMap, d) \<Rightarrow>
        validateField sample_engine (form_fields d ! 0) (errorElFor errorMap (form_fields d ! 0))
          = \<lparr>valid = False, reason = Some ''required''\<rparr>
        \<and> submit_proceeds (submit_listener sample_engine errorMap d new_event)
        \<and> (case submit_listener sample_engine errorMap d new_event of
              Inl (e, d', ev) \<Rightarrow> e = TypeError \<and> \<not> is_invalid (form_fields d' ! 0) \<and> focused d' = None
            | Inr r \<Rightarrow> False))"
  by code_simp

end
